theory Spec2Isabelle
  imports Complex_Main "HOL-Library.Monad_Syntax"
begin

section \<open>Python values and exceptions\<close>

text \<open>
  The scripts are Python. An uncaught exception aborts the script, so every function that
  can raise returns \<open>error + 'a\<close>, with \<open>Inl\<close> the exception: IndexError from an index out
  of range, ValueError from \<open>int\<close> and \<open>float\<close>, AttributeError from an attribute of
  \<open>None\<close>. Python's \<open>float\<close> is
  modelled by its exact value: a finite float is the real number it denotes (rounding to
  the nearest double and the sign of zero are not modelled), and the two infinities and
  not-a-number are values of their own. Text is ASCII.
\<close>

datatype error = IndexError | ValueError | AttributeError

datatype pyfloat = Finite real | PosInf | NegInf | NaN

text \<open>Unary minus on a float, as in \<^verbatim>\<open>-float(tokens[1])\<close>.\<close>

fun py_neg :: "pyfloat \<Rightarrow> pyfloat" where
  "py_neg (Finite r) = Finite (- r)"
| "py_neg PosInf = NegInf"
| "py_neg NegInf = PosInf"
| "py_neg NaN = NaN"

text \<open>\<^verbatim>\<open>xs[i]\<close> for a literal index \<open>i \<ge> 0\<close>: IndexError out of range.\<close>

definition idx :: "'a list \<Rightarrow> nat \<Rightarrow> error + 'a" where
  "idx xs i = (if i < length xs then Inr (xs ! i) else Inl IndexError)"

subsection \<open>\<^verbatim>\<open>str.split()\<close>\<close>

text \<open>
  With no argument, \<^verbatim>\<open>split\<close> cuts at runs of whitespace and returns no empty token.
  The ASCII characters that \<^verbatim>\<open>str.isspace\<close> accepts are tab, line feed, vertical tab,
  form feed, carriage return, the four separators 0x1C to 0x1F, and the space.
\<close>

definition is_space :: "char \<Rightarrow> bool" where
  "is_space c \<longleftrightarrow>
     c \<in> set [CHR 0x09, CHR 0x0A, CHR 0x0B, CHR 0x0C, CHR 0x0D,
              CHR 0x1C, CHR 0x1D, CHR 0x1E, CHR 0x1F, CHR 0x20]"

text \<open>\<open>split_from cur s\<close>: \<open>cur\<close> is the token being read, \<open>s\<close> the rest of the line.\<close>

fun split_from :: "string \<Rightarrow> string \<Rightarrow> string list" where
  "split_from cur [] = (if cur = [] then [] else [cur])"
| "split_from cur (c # cs) =
     (if is_space c then (if cur = [] then split_from [] cs else cur # split_from [] cs)
      else split_from (cur @ [c]) cs)"

definition py_split :: "string \<Rightarrow> string list" where
  "py_split line = split_from [] line"

subsection \<open>\<^verbatim>\<open>int(token)\<close> and \<^verbatim>\<open>float(token)\<close>\<close>

text \<open>
  Both read a whole token (a token of \<open>py_split\<close> has no whitespace to strip) and raise
  ValueError on anything else, here \<open>None\<close>. The grammar is the one of the language
  reference, on ASCII:
  \<^verbatim>\<open>
  digitpart   ::= digit (["_"] digit)*
  integer     ::= [sign] digitpart
  number      ::= [digitpart] "." digitpart | digitpart ["."]
  exponent    ::= ("e" | "E") [sign] digitpart
  floatvalue  ::= [sign] (number [exponent] | "inf" | "infinity" | "nan")
  \<close>
  with \<open>inf\<close>, \<open>infinity\<close> and \<open>nan\<close> in any case. The limit on the number of digits of
  an integer literal that recent interpreters enforce is not modelled.
\<close>

definition is_digit :: "char \<Rightarrow> bool" where
  "is_digit c \<longleftrightarrow> c \<in> set ''0123456789''"

definition digit_val :: "char \<Rightarrow> nat" where
  "digit_val c = of_char c - 48"

definition digits_val :: "string \<Rightarrow> nat" where
  "digits_val ds = foldl (\<lambda>n c. 10 * n + digit_val c) 0 ds"

text \<open>The rest of a digitpart after a digit: the digits read and what follows them.\<close>

fun digit_tail :: "string \<Rightarrow> string \<times> string" where
  "digit_tail [] = ([], [])"
| "digit_tail [c] = (if is_digit c then ([c], []) else ([], [c]))"
| "digit_tail (c # d # cs) =
     (if is_digit c then (case digit_tail (d # cs) of (ds, r) \<Rightarrow> (c # ds, r))
      else if c = CHR ''_'' \<and> is_digit d then (case digit_tail cs of (ds, r) \<Rightarrow> (d # ds, r))
      else ([], c # d # cs))"

definition digitpart :: "string \<Rightarrow> (string \<times> string) option" where
  "digitpart s =
     (case s of
        [] \<Rightarrow> None
      | c # cs \<Rightarrow> if is_digit c then (case digit_tail cs of (ds, r) \<Rightarrow> Some (c # ds, r))
                  else None)"

text \<open>An optional sign: whether it is a minus, and the rest.\<close>

definition sign :: "string \<Rightarrow> bool \<times> string" where
  "sign s =
     (case s of
        [] \<Rightarrow> (False, [])
      | c # cs \<Rightarrow> if c = CHR ''-'' then (True, cs)
                  else if c = CHR ''+'' then (False, cs)
                  else (False, c # cs))"

definition py_int :: "string \<Rightarrow> int option" where
  "py_int s =
     (case sign s of (neg, r) \<Rightarrow>
        (case digitpart r of
           Some (ds, []) \<Rightarrow> Some (if neg then - int (digits_val ds) else int (digits_val ds))
         | _ \<Rightarrow> None))"

definition lower :: "char \<Rightarrow> char" where
  "lower c =
     (if of_char (CHR ''A'') \<le> (of_char c :: nat) \<and> (of_char c :: nat) \<le> of_char (CHR ''Z'')
      then char_of (of_char c + (32 :: nat)) else c)"

text \<open>
  The exponent and the end of the token, after the integer digits \<open>ip\<close> and the fraction
  digits \<open>fp\<close>: the value \<open>ip.fp \<times> 10^e\<close>.
\<close>

definition mantissa :: "string \<Rightarrow> string \<Rightarrow> real" where
  "mantissa ip fp = real (digits_val ip) + real (digits_val fp) / 10 ^ length fp"

definition exponent :: "string \<Rightarrow> string \<Rightarrow> string \<Rightarrow> real option" where
  "exponent ip fp s =
     (case s of
        [] \<Rightarrow> Some (mantissa ip fp)
      | c # cs \<Rightarrow>
          if c = CHR ''e'' \<or> c = CHR ''E'' then
            (case sign cs of (neg, r) \<Rightarrow>
               (case digitpart r of
                  Some (ds, []) \<Rightarrow>
                    Some (if neg then mantissa ip fp / 10 ^ digits_val ds
                          else mantissa ip fp * 10 ^ digits_val ds)
                | _ \<Rightarrow> None))
          else None)"

definition floatnumber :: "string \<Rightarrow> real option" where
  "floatnumber s =
     (case digitpart s of
        Some (ip, r1) \<Rightarrow>
          (case r1 of
             [] \<Rightarrow> exponent ip [] r1
           | c # r2 \<Rightarrow>
               if c = CHR ''.'' then
                 (case digitpart r2 of
                    Some (fp, r3) \<Rightarrow> exponent ip fp r3
                  | None \<Rightarrow> exponent ip [] r2)
               else exponent ip [] r1)
      | None \<Rightarrow>
          (case s of
             [] \<Rightarrow> None
           | c # r2 \<Rightarrow>
               if c = CHR ''.'' then
                 (case digitpart r2 of
                    Some (fp, r3) \<Rightarrow> exponent [] fp r3
                  | None \<Rightarrow> None)
               else None))"

definition py_float :: "string \<Rightarrow> pyfloat option" where
  "py_float s =
     (case sign s of (neg, r) \<Rightarrow>
        if map lower r = ''inf'' \<or> map lower r = ''infinity''
          then Some (if neg then NegInf else PosInf)
        else if map lower r = ''nan'' then Some NaN
        else (case floatnumber r of
                Some v \<Rightarrow> Some (Finite (if neg then - v else v))
              | None \<Rightarrow> None))"

section \<open>The parse loop of the scene scripts\<close>

text \<open>
  \<^verbatim>\<open>convertmonkey.py\<close>, \<^verbatim>\<open>make_bunny_scene.py\<close>, \<^verbatim>\<open>make_dragon_scene.py\<close> and
  \<^verbatim>\<open>make_bunnyetc_scene.py\<close> (three times) hold the same loop:
  \<^verbatim>\<open>
  vertices = []
  indices = []
  for line in file:
      tokens = line.split()
      if tokens[0] == "v":
          vertices.append([-float(tokens[1]), float(tokens[2]), float(tokens[3])])
      elif tokens[0] == "f":
          indices.append([int(token) - 1 for token in tokens[1:4]])
  \<close>
  The file is the list of its lines, each with its line end. The two lists the loop
  appends to are the state.
\<close>

record mesh =
  vertices :: "pyfloat list list"
  indices :: "int list list"

text \<open>\<^verbatim>\<open>float(tokens[i])\<close>: IndexError from the index, then ValueError from \<open>float\<close>.\<close>

definition float_at :: "string list \<Rightarrow> nat \<Rightarrow> error + pyfloat" where
  "float_at tokens i =
     (case idx tokens i of
        Inl e \<Rightarrow> Inl e
      | Inr t \<Rightarrow> (case py_float t of None \<Rightarrow> Inl ValueError | Some x \<Rightarrow> Inr x))"

text \<open>
  The change of coordinates that the list display of a vertex record holds: the first
  coordinate is negated, the other two are kept.
\<close>

fun negate_x :: "pyfloat list \<Rightarrow> pyfloat list" where
  "negate_x (x # rest) = py_neg x # rest"
| "negate_x [] = []"

text \<open>
  The vertex of a record,
  \<^verbatim>\<open>[-float(tokens[1]), float(tokens[2]), float(tokens[3])]\<close>, in the order Python
  evaluates it; negating cannot raise, so it is applied to the three floats once read.
\<close>

definition vertex_of :: "string list \<Rightarrow> error + pyfloat list" where
  "vertex_of tokens =
     (case float_at tokens 1 of
        Inl e \<Rightarrow> Inl e
      | Inr x \<Rightarrow>
          (case float_at tokens 2 of
             Inl e \<Rightarrow> Inl e
           | Inr y \<Rightarrow>
               (case float_at tokens 3 of
                  Inl e \<Rightarrow> Inl e
                | Inr z \<Rightarrow> Inr (negate_x [x, y, z]))))"

text \<open>\<^verbatim>\<open>[int(token) - 1 for token in ts]\<close>: the first token \<open>int\<close> refuses raises.\<close>

fun face_of :: "string list \<Rightarrow> error + int list" where
  "face_of [] = Inr []"
| "face_of (t # ts) =
     (case py_int t of
        None \<Rightarrow> Inl ValueError
      | Some i \<Rightarrow> (case face_of ts of Inl e \<Rightarrow> Inl e | Inr js \<Rightarrow> Inr ((i - 1) # js)))"

text \<open>One turn of the loop. \<^verbatim>\<open>tokens[1:4]\<close> is a slice: it never raises.\<close>

definition parse_line :: "mesh \<Rightarrow> string \<Rightarrow> error + mesh" where
  "parse_line m line =
     (let tokens = py_split line in
      case idx tokens 0 of
        Inl e \<Rightarrow> Inl e
      | Inr t0 \<Rightarrow>
          if t0 = ''v'' then
            (case vertex_of tokens of
               Inl e \<Rightarrow> Inl e
             | Inr v \<Rightarrow> Inr (m\<lparr>vertices := vertices m @ [v]\<rparr>))
          else if t0 = ''f'' then
            (case face_of (take 3 (drop 1 tokens)) of
               Inl e \<Rightarrow> Inl e
             | Inr f \<Rightarrow> Inr (m\<lparr>indices := indices m @ [f]\<rparr>))
          else Inr m)"

fun parse_from :: "mesh \<Rightarrow> string list \<Rightarrow> error + mesh" where
  "parse_from m [] = Inr m"
| "parse_from m (line # lines) =
     (case parse_line m line of Inl e \<Rightarrow> Inl e | Inr m' \<Rightarrow> parse_from m' lines)"

definition parse_loop :: "string list \<Rightarrow> error + mesh" where
  "parse_loop lines = parse_from \<lparr>vertices = [], indices = []\<rparr> lines"

section \<open>The Blender export script\<close>

text \<open>
  \<^verbatim>\<open>scenes/scene_from_blend.py\<close>. Vectors and quaternions are Python lists of floats,
  here lists of reals: the arithmetic is exact. The values the script reads from Blender
  (the camera's location, rotation quaternion and lens angle, the render resolution, the
  node trees) are the arguments of the functions below.
\<close>

text \<open>\<^verbatim>\<open>return [values[0], values[2], values[1]]\<close>\<close>

definition xzy_to_xyz :: "'a list \<Rightarrow> error + 'a list" where
  "xzy_to_xyz values =
     (case idx values 0 of
        Inl e \<Rightarrow> Inl e
      | Inr a \<Rightarrow>
          (case idx values 2 of
             Inl e \<Rightarrow> Inl e
           | Inr b \<Rightarrow> (case idx values 1 of Inl e \<Rightarrow> Inl e | Inr c \<Rightarrow> Inr [a, b, c])))"

text \<open>\<^verbatim>\<open>return [x + y for (x, y) in zip(a, b)]\<close>: \<open>zip\<close> stops at the shorter list.\<close>

definition add_vec :: "real list \<Rightarrow> real list \<Rightarrow> real list" where
  "add_vec a b = map (\<lambda>(x, y). x + y) (zip a b)"

text \<open>
  \<^verbatim>\<open>multiply_quats\<close> reads the indices 0 to 3 of both lists; every read out of range
  raises the same IndexError, so the reads are checked at once.
\<close>

definition multiply_quats :: "real list \<Rightarrow> real list \<Rightarrow> error + real list" where
  "multiply_quats a b =
     (if length a < 4 \<or> length b < 4 then Inl IndexError
      else
        (let w = a ! 0 * b ! 0 - a ! 1 * b ! 1 - a ! 2 * b ! 2 - a ! 3 * b ! 3;
             x = a ! 0 * b ! 1 + a ! 1 * b ! 0 - a ! 2 * b ! 3 + a ! 3 * b ! 2;
             y = a ! 0 * b ! 2 + a ! 1 * b ! 3 + a ! 2 * b ! 0 - a ! 3 * b ! 1;
             z = a ! 0 * b ! 3 - a ! 1 * b ! 2 + a ! 2 * b ! 1 + a ! 3 * b ! 0
         in Inr [w, x, y, z]))"

text \<open>
  \<^verbatim>\<open>
  def rotate_quat(vec, quat):
      inv_quat = [quat[0]] + [-x for x in quat[1:4]]
      rotated = multiply_quats(inv_quat, multiply_quats([0] + vec, quat))
      return rotated[-3:]
  \<close>
  The slice \<^verbatim>\<open>rotated[-3:]\<close> is the last three elements, or all of a shorter list.
\<close>

definition rotate_quat :: "real list \<Rightarrow> real list \<Rightarrow> error + real list" where
  "rotate_quat vec quat =
     (case idx quat 0 of
        Inl e \<Rightarrow> Inl e
      | Inr q0 \<Rightarrow>
          (let inv_quat = [q0] @ map uminus (take 3 (drop 1 quat)) in
           case multiply_quats ([0] @ vec) quat of
             Inl e \<Rightarrow> Inl e
           | Inr inner \<Rightarrow>
               (case multiply_quats inv_quat inner of
                  Inl e \<Rightarrow> Inl e
                | Inr rotated \<Rightarrow> Inr (drop (length rotated - 3) rotated))))"

subsection \<open>The camera\<close>

record camera =
  film_dimensions :: "int list"
  origin :: "real list"
  look_at :: "real list"
  up :: "real list"
  field_of_view :: real

text \<open>\<^verbatim>\<open>math.degrees\<close>\<close>

definition degrees :: "real \<Rightarrow> real" where
  "degrees x = x * (180 / pi)"

text \<open>
  Lines 48 to 60 of the script:
  \<^verbatim>\<open>
  camera_quat = list(scene.camera.rotation_quaternion[:4])
  origin = xzy_to_xyz(scene.camera.location[:3])
  look_at = add_vec(origin, xzy_to_xyz(rotate_quat([0, 0, -1], camera_quat)))
  up = xzy_to_xyz(rotate_quat([0, 1, 0], camera_quat))
  scene_dict["camera"] = {
      "film_dimensions": [scene.render.resolution_x, scene.render.resolution_y],
      "origin": origin, "look_at": look_at, "up": up,
      "field_of_view": math.degrees(scene.camera.data.angle)}
  \<close>
  \<open>camera_with\<close> is these lines with the change of coordinates, applied three times, as
  the parameter \<open>transform\<close>; the script's camera, \<open>scene_camera\<close>, is \<open>camera_with\<close> at
  the one change of coordinates the script has, \<open>xzy_to_xyz\<close>.
\<close>

definition camera_with ::
  "(real list \<Rightarrow> error + real list) \<Rightarrow> real list \<Rightarrow> real list \<Rightarrow> int \<Rightarrow> int \<Rightarrow> real \<Rightarrow>
     error + camera" where
  "camera_with transform rotation_quaternion location resolution_x resolution_y angle =
     (let camera_quat = take 4 rotation_quaternion in
      case transform (take 3 location) of
        Inl e \<Rightarrow> Inl e
      | Inr origin' \<Rightarrow>
          (case rotate_quat [0, 0, - 1] camera_quat of
             Inl e \<Rightarrow> Inl e
           | Inr forward \<Rightarrow>
               (case transform forward of
                  Inl e \<Rightarrow> Inl e
                | Inr forward' \<Rightarrow>
                    (case rotate_quat [0, 1, 0] camera_quat of
                       Inl e \<Rightarrow> Inl e
                     | Inr upward \<Rightarrow>
                         (case transform upward of
                            Inl e \<Rightarrow> Inl e
                          | Inr up' \<Rightarrow>
                              Inr \<lparr>film_dimensions = [resolution_x, resolution_y],
                                   origin = origin',
                                   look_at = add_vec origin' forward',
                                   up = up',
                                   field_of_view = degrees angle\<rparr>)))))"

definition scene_camera :: "real list \<Rightarrow> real list \<Rightarrow> int \<Rightarrow> int \<Rightarrow> real \<Rightarrow> error + camera" where
  "scene_camera rotation_quaternion location resolution_x resolution_y angle =
     camera_with xzy_to_xyz rotation_quaternion location resolution_x resolution_y angle"

subsection \<open>Background and material colours\<close>

text \<open>
  A node tree's \<^verbatim>\<open>nodes\<close> collection is a map from node names to nodes; of a node the
  script reads only \<^verbatim>\<open>inputs[i].default_value\<close>, so a node is the list of the default
  values of its inputs. Of a world and of a material the script reads only
  \<^verbatim>\<open>node_tree.nodes\<close>: a world or a material is its node tree, which is \<open>None\<close> when it
  has none, and otherwise its nodes. The scene's world is \<open>None\<close> when the scene has no
  world, and a slot of \<^verbatim>\<open>mesh.data.materials\<close> is \<open>None\<close> when it is empty. An attribute
  of \<open>None\<close> raises AttributeError.
\<close>

type_synonym node = "real list list"

type_synonym nodes = "string \<rightharpoonup> node"

type_synonym node_tree = "nodes option"

text \<open>
  \<^verbatim>\<open>
  environment = [0.8] * 3
  if "Background" in scene.world.node_tree.nodes:
      background_node = scene.world.node_tree.nodes["Background"]
      environment = list(background_node.inputs[0].default_value[:3])
  \<close>
\<close>

definition environment :: "node_tree option \<Rightarrow> error + real list" where
  "environment scene_world =
     (case scene_world of
        None \<Rightarrow> Inl AttributeError
      | Some None \<Rightarrow> Inl AttributeError
      | Some (Some world_nodes) \<Rightarrow>
          (case world_nodes ''Background'' of
             None \<Rightarrow> Inr (replicate 3 0.8)
           | Some background_node \<Rightarrow>
               (case idx background_node 0 of
                  Inl e \<Rightarrow> Inl e
                | Inr default_value \<Rightarrow> Inr (take 3 default_value))))"

text \<open>
  \<^verbatim>\<open>
  color = [0.5] * 3
  materials = mesh.data.materials.values()
  if len(materials) > 0 and "Diffuse BSDF" in materials[0].node_tree.nodes:
      diffuse_node = materials[0].node_tree.nodes["Diffuse BSDF"]
      color = list(diffuse_node.inputs[0].default_value[:3])
  \<close>
  \<open>materials\<close> is the list of the slots.
\<close>

definition color :: "node_tree option list \<Rightarrow> error + real list" where
  "color materials =
     (case materials of
        [] \<Rightarrow> Inr (replicate 3 0.5)
      | None # _ \<Rightarrow> Inl AttributeError
      | Some None # _ \<Rightarrow> Inl AttributeError
      | Some (Some material_nodes) # _ \<Rightarrow>
          (case material_nodes ''Diffuse BSDF'' of
             None \<Rightarrow> Inr (replicate 3 0.5)
           | Some diffuse_node \<Rightarrow>
               (case idx diffuse_node 0 of
                  Inl e \<Rightarrow> Inl e
                | Inr default_value \<Rightarrow> Inr (take 3 default_value))))"

subsection \<open>The compaction of short vectors\<close>

text \<open>
  The last lines of the script rewrite the indented text of the scene:
  \<^verbatim>\<open>
  number_pattern = "-?[0-9]+(?:\.[0-9]+)?"
  double_pattern = "\[\n *({0}),\n *({0})\n *\]".format(number_pattern)
  triple_pattern = "\[\n *({0}),\n *({0}),\n *({0})\n *\]".format(number_pattern)
  scene_string = json.dumps(scene_dict, indent=4)
  scene_string = re.sub(double_pattern, r"[\1, \2]", scene_string)
  scene_string = re.sub(triple_pattern, r"[\1, \2, \3]", scene_string)
  \<close>
  A pattern is the function that matches it at the start of a text: it returns the text
  of its groups and the rest of the text, or \<open>None\<close>. Each piece of a pattern is matched
  greedily and never reconsidered. For these patterns that is what the backtracking of
  \<^verbatim>\<open>re\<close> finds: a run of spaces is followed by a character that is not a space, and a
  number by a comma or a line feed, so that a shorter run of spaces, of digits, or a
  number without its fraction, leaves a character that the next piece refuses.
\<close>

text \<open>A literal text.\<close>

definition literal :: "string \<Rightarrow> string \<Rightarrow> string option" where
  "literal p s = (if take (length p) s = p then Some (drop (length p) s) else None)"

text \<open>\<^verbatim>\<open> *\<close>\<close>

definition spaces :: "string \<Rightarrow> string" where
  "spaces s = dropWhile (\<lambda>c. c = CHR '' '') s"

text \<open>\<^verbatim>\<open>[0-9]+\<close>\<close>

definition digits :: "string \<Rightarrow> (string \<times> string) option" where
  "digits s =
     (if takeWhile is_digit s = [] then None
      else Some (takeWhile is_digit s, dropWhile is_digit s))"

text \<open>\<^verbatim>\<open>-?\<close>\<close>

definition minus_sign :: "string \<Rightarrow> string \<times> string" where
  "minus_sign s = (case literal ''-'' s of Some r \<Rightarrow> (''-'', r) | None \<Rightarrow> ([], s))"

text \<open>\<^verbatim>\<open>\.[0-9]+\<close>\<close>

definition fraction :: "string \<Rightarrow> (string \<times> string) option" where
  "fraction s = do { r \<leftarrow> literal ''.'' s; (fp, r') \<leftarrow> digits r; Some (''.'' @ fp, r') }"

text \<open>\<^verbatim>\<open>-?[0-9]+(?:\.[0-9]+)?\<close>: the text matched and the rest.\<close>

definition number_pattern :: "string \<Rightarrow> (string \<times> string) option" where
  "number_pattern s =
     (case minus_sign s of (sg, s1) \<Rightarrow>
        do {
          (ip, s2) \<leftarrow> digits s1;
          (case fraction s2 of
             Some (fr, s3) \<Rightarrow> Some (sg @ ip @ fr, s3)
           | None \<Rightarrow> Some (sg @ ip, s2))
        })"

definition double_pattern :: "string \<Rightarrow> (string list \<times> string) option" where
  "double_pattern s =
     do {
       s1 \<leftarrow> literal ''[\<newline>'' s;
       (a, s2) \<leftarrow> number_pattern (spaces s1);
       s3 \<leftarrow> literal '',\<newline>'' s2;
       (b, s4) \<leftarrow> number_pattern (spaces s3);
       s5 \<leftarrow> literal ''\<newline>'' s4;
       s6 \<leftarrow> literal '']'' (spaces s5);
       Some ([a, b], s6)
     }"

definition triple_pattern :: "string \<Rightarrow> (string list \<times> string) option" where
  "triple_pattern s =
     do {
       s1 \<leftarrow> literal ''[\<newline>'' s;
       (a, s2) \<leftarrow> number_pattern (spaces s1);
       s3 \<leftarrow> literal '',\<newline>'' s2;
       (b, s4) \<leftarrow> number_pattern (spaces s3);
       s5 \<leftarrow> literal '',\<newline>'' s4;
       (c, s6) \<leftarrow> number_pattern (spaces s5);
       s7 \<leftarrow> literal ''\<newline>'' s6;
       s8 \<leftarrow> literal '']'' (spaces s7);
       Some ([a, b, c], s8)
     }"

text \<open>The replacements \<^verbatim>\<open>r"[\1, \2]"\<close> and \<^verbatim>\<open>r"[\1, \2, \3]"\<close>, of the groups.\<close>

definition double_template :: "string list \<Rightarrow> string" where
  "double_template g = ''['' @ g ! 0 @ '', '' @ g ! 1 @ '']''"

definition triple_template :: "string list \<Rightarrow> string" where
  "triple_template g = ''['' @ g ! 0 @ '', '' @ g ! 1 @ '', '' @ g ! 2 @ '']''"

text \<open>
  \<^verbatim>\<open>re.sub(pattern, repl, s)\<close> reads \<open>s\<close> from the left. Where the pattern matches, the
  replacement is written and the reading goes on after the match; elsewhere the
  character is copied. After an empty match the replacement is written, the next
  character is copied and the reading goes on after it: the two patterns above have no
  empty match.
\<close>

function re_sub ::
  "(string \<Rightarrow> (string list \<times> string) option) \<Rightarrow> (string list \<Rightarrow> string) \<Rightarrow> string \<Rightarrow> string"
where
  "re_sub pattern repl s =
     (case pattern s of
        Some (groups, rest) \<Rightarrow>
          if length rest < length s then repl groups @ re_sub pattern repl rest
          else (case s of
                  [] \<Rightarrow> repl groups
                | c # cs \<Rightarrow> repl groups @ c # re_sub pattern repl cs)
      | None \<Rightarrow>
          (case s of
             [] \<Rightarrow> []
           | c # cs \<Rightarrow> c # re_sub pattern repl cs))"
  by pat_completeness auto
termination
  by (relation "measure (\<lambda>(pattern, repl, s). length s)") auto

declare re_sub.simps [simp del]

text \<open>The two substitutions, on the text that \<^verbatim>\<open>json.dumps\<close> returned.\<close>

definition compaction :: "string \<Rightarrow> string" where
  "compaction scene_string =
     re_sub triple_pattern triple_template (re_sub double_pattern double_template scene_string)"

section \<open>Reference notions\<close>

subsection \<open>Records of the geometry text\<close>

text \<open>A line is a record of tag \<open>tag\<close> when its first token is \<open>tag\<close>.\<close>

definition record_of :: "string \<Rightarrow> string \<Rightarrow> bool" where
  "record_of tag line = (case py_split line of [] \<Rightarrow> False | t # _ \<Rightarrow> t = tag)"

definition count_records :: "string \<Rightarrow> string list \<Rightarrow> nat" where
  "count_records tag lines = length (filter (record_of tag) lines)"

text \<open>Every index of every face is at least 0 and less than the number of vertices.\<close>

definition indices_in_range :: "mesh \<Rightarrow> bool" where
  "indices_in_range m =
     list_all (list_all (\<lambda>i. 0 \<le> i \<and> i < int (length (vertices m)))) (indices m)"

text \<open>
  The index tokens of a face record, \<^verbatim>\<open>tokens[1:4]\<close>, and the texts in which each of them
  is an integer from 1 to \<open>n\<close>.
\<close>

definition face_tokens :: "string \<Rightarrow> string list" where
  "face_tokens line = take 3 (drop 1 (py_split line))"

definition tokens_in_range :: "nat \<Rightarrow> string list \<Rightarrow> bool" where
  "tokens_in_range n lines =
     list_all
       (\<lambda>l. list_all (\<lambda>t. case py_int t of None \<Rightarrow> False | Some i \<Rightarrow> 1 \<le> i \<and> i \<le> int n)
              (face_tokens l))
       (filter (record_of ''f'') lines)"

text \<open>A vertex record with fewer than three tokens after its tag.\<close>

definition short_vertex_record :: "string \<Rightarrow> bool" where
  "short_vertex_record line =
     (case py_split line of [] \<Rightarrow> False | t # ts \<Rightarrow> t = ''v'' \<and> length ts < 3)"

subsection \<open>Quaternions and the rotation they represent\<close>

text \<open>
  A quaternion is a scalar and a vector. The Hamilton product, in which \<open>i j = k\<close>, is
  \<open>(s, u) (t, v) = (s t - u \<cdot> v, s v + t u + u \<times> v)\<close>; the conjugate negates the vector.
  A unit quaternion \<open>q\<close> represents the rotation \<open>v \<mapsto> q (0, v) q\<^sup>*\<close>, and its conjugate
  represents the inverse rotation.
\<close>

fun dot :: "real list \<Rightarrow> real list \<Rightarrow> real" where
  "dot [a1, a2, a3] [b1, b2, b3] = a1 * b1 + a2 * b2 + a3 * b3"
| "dot _ _ = 0"

fun cross :: "real list \<Rightarrow> real list \<Rightarrow> real list" where
  "cross [a1, a2, a3] [b1, b2, b3] =
     [a2 * b3 - a3 * b2, a3 * b1 - a1 * b3, a1 * b2 - a2 * b1]"
| "cross _ _ = []"

definition scale :: "real \<Rightarrow> real list \<Rightarrow> real list" where
  "scale k v = map (\<lambda>x. k * x) v"

definition hamilton :: "real \<times> real list \<Rightarrow> real \<times> real list \<Rightarrow> real \<times> real list" where
  "hamilton p q =
     (fst p * fst q - dot (snd p) (snd q),
      add_vec (add_vec (scale (fst p) (snd q)) (scale (fst q) (snd p))) (cross (snd p) (snd q)))"

definition conjugate :: "real \<times> real list \<Rightarrow> real \<times> real list" where
  "conjugate q = (fst q, map uminus (snd q))"

definition orientation :: "real \<times> real list \<Rightarrow> real list \<Rightarrow> real list" where
  "orientation q v = snd (hamilton (hamilton q (0, v)) (conjugate q))"

text \<open>The list \<open>[w, x, y, z]\<close> of the script and the quaternion \<open>(w, [x, y, z])\<close>.\<close>

definition quat_of :: "real list \<Rightarrow> real \<times> real list" where
  "quat_of q = (hd q, tl q)"

definition quat_list :: "real \<times> real list \<Rightarrow> real list" where
  "quat_list q = fst q # snd q"

definition unit_quat :: "real list \<Rightarrow> bool" where
  "unit_quat q \<longleftrightarrow>
     length q = 4 \<and> (q ! 0)\<^sup>2 + (q ! 1)\<^sup>2 + (q ! 2)\<^sup>2 + (q ! 3)\<^sup>2 = 1"

subsection \<open>Vectors in the indented text\<close>

text \<open>
  A text is a number of the script when \<open>number_pattern\<close> matches all of it.
  \<open>double_text\<close> and \<open>triple_text\<close> are a vector of two and of three elements as
  \<^verbatim>\<open>json.dumps\<close> indents it, one element a line, after any number of spaces.
\<close>

definition is_number :: "string \<Rightarrow> bool" where
  "is_number n \<longleftrightarrow> number_pattern n = Some (n, [])"

definition indent :: "nat \<Rightarrow> string" where
  "indent k = replicate k (CHR '' '')"

definition double_text :: "nat \<Rightarrow> nat \<Rightarrow> nat \<Rightarrow> string \<Rightarrow> string \<Rightarrow> string" where
  "double_text k1 k2 k3 a b =
     ''[\<newline>'' @ indent k1 @ a @ '',\<newline>'' @ indent k2 @ b @ ''\<newline>'' @ indent k3 @ '']''"

definition triple_text ::
  "nat \<Rightarrow> nat \<Rightarrow> nat \<Rightarrow> nat \<Rightarrow> string \<Rightarrow> string \<Rightarrow> string \<Rightarrow> string" where
  "triple_text k1 k2 k3 k4 a b c =
     ''[\<newline>'' @ indent k1 @ a @ '',\<newline>'' @ indent k2 @ b @ '',\<newline>'' @ indent k3 @ c @
     ''\<newline>'' @ indent k4 @ '']''"

text \<open>
  What the two patterns share: a match starts with a bracket and a line feed and has no
  other bracket, it does not depend on the text after it, and its replacement starts
  with a bracket that no line feed follows and has no other bracket.
\<close>

definition bracketed ::
  "(string \<Rightarrow> (string list \<times> string) option) \<Rightarrow> (string list \<Rightarrow> string) \<Rightarrow> bool" where
  "bracketed p r \<longleftrightarrow>
     (\<forall>s g rest. p s = Some (g, rest) \<longrightarrow>
        (\<exists>M w. s = CHR ''['' # CHR ''\<newline>'' # M @ rest \<and> CHR ''['' \<notin> set M \<and>
               (\<forall>t. p (CHR ''['' # CHR ''\<newline>'' # M @ t) = Some (g, t)) \<and>
               r g = CHR ''['' # w \<and> w \<noteq> [] \<and> hd w \<noteq> CHR ''\<newline>'' \<and> CHR ''['' \<notin> set w))"

text \<open>The pattern matches nowhere in the text.\<close>

fun unmatched :: "(string \<Rightarrow> (string list \<times> string) option) \<Rightarrow> string \<Rightarrow> bool" where
  "unmatched p [] \<longleftrightarrow> True"
| "unmatched p (c # cs) \<longleftrightarrow> p (c # cs) = None \<and> unmatched p cs"

section \<open>Evaluation and list helpers\<close>

lemmas token_defs = py_split_def is_space_def idx_def float_at_def py_float_def sign_def
  floatnumber_def digitpart_def is_digit_def exponent_def mantissa_def digits_val_def
  digit_val_def lower_def py_int_def

lemma length_3_cases: "length v = 3 \<Longrightarrow> \<exists>a b c. v = [a, b, c]"
  by (auto simp: length_Suc_conv numeral_3_eq_3)

lemma length_4_cases: "length v = 4 \<Longrightarrow> \<exists>a b c d. v = [a, b, c, d]"
  by (auto simp: length_Suc_conv numeral_eq_Suc)

lemma py_neg_twice: "py_neg (py_neg x) = x"
  by (cases x) simp_all

section \<open>The rotation helper\<close>

text \<open>
  \<open>multiply_quats a b\<close> is the Hamilton product with its operands exchanged, \<open>b a\<close>: the
  signs of the three cross terms are those of \<open>b \<times> a\<close>. With \<open>i = [0, 1, 0, 0]\<close> and
  \<open>j = [0, 0, 1, 0]\<close> it returns \<open>- k\<close>.
\<close>

lemma hamilton_i_j: "hamilton (0, [1, 0, 0]) (0, [0, 1, 0]) = (0, [0, 0, 1])"
  by (simp add: hamilton_def add_vec_def scale_def)

lemma multiply_quats_i_j: "multiply_quats [0, 1, 0, 0] [0, 0, 1, 0] = Inr [0, 0, 0, - 1]"
  by (simp add: multiply_quats_def)

lemma multiply_quats_hamilton:
  "multiply_quats [a0, a1, a2, a3] [b0, b1, b2, b3] =
     Inr (quat_list (hamilton (b0, [b1, b2, b3]) (a0, [a1, a2, a3])))"
  by (simp add: multiply_quats_def hamilton_def add_vec_def scale_def quat_list_def
      algebra_simps)

lemma rotate_quat_sandwich:
  "rotate_quat [a, b, c] [w, x, y, z] = Inr (orientation (w, [x, y, z]) [a, b, c])"
  by (simp add: rotate_quat_def multiply_quats_def idx_def hamilton_def conjugate_def
      add_vec_def scale_def orientation_def algebra_simps)

text \<open>
  The conjugate of a unit quaternion undoes its rotation, so \<open>orientation (conjugate q)\<close>
  is the inverse orientation.
\<close>

lemma orientation_conjugate:
  assumes "w\<^sup>2 + x\<^sup>2 + y\<^sup>2 + z\<^sup>2 = 1"
  shows "orientation (conjugate (w, [x, y, z])) (orientation (w, [x, y, z]) [a, b, c]) =
         [a, b, c]"
proof -
  have 1: "orientation (conjugate (w, [x, y, z])) (orientation (w, [x, y, z]) [a, b, c]) =
           scale ((w\<^sup>2 + x\<^sup>2 + y\<^sup>2 + z\<^sup>2) * (w\<^sup>2 + x\<^sup>2 + y\<^sup>2 + z\<^sup>2)) [a, b, c]"
    by (simp add: orientation_def hamilton_def conjugate_def add_vec_def scale_def
        power2_eq_square algebra_simps)
  show ?thesis unfolding 1 assms by (simp add: scale_def)
qed

text \<open>
  The rotation of a unit quaternion \<open>(cos (t/2), sin (t/2) n)\<close> is the turn by the angle
  \<open>t\<close> about the axis \<open>n\<close>, counterclockwise seen from the tip of \<open>n\<close>. About the third
  axis \<open>orientation\<close> is that turn:
\<close>

lemma orientation_about_third_axis:
  "orientation (cos (t / 2), [0, 0, sin (t / 2)]) [x, y, z] =
     [x * cos t - y * sin t, x * sin t + y * cos t, z]"
proof -
  define c s where "c = cos (t / 2)" and "s = sin (t / 2)"
  have 1: "cos t = c * c - s * s"
    using cos_double [of "t / 2"] by (simp add: c_def s_def power2_eq_square)
  have 2: "sin t = 2 * s * c"
    using sin_double [of "t / 2"] by (simp add: c_def s_def)
  have 3: "c * c + s * s = 1"
    using sin_cos_squared_add2 [of "t / 2"] by (simp add: c_def s_def power2_eq_square)
  have "z * (c * c) + z * (s * s) = z * (c * c + s * s)"
    by (simp add: algebra_simps)
  then have 4: "z * (c * c) + z * (s * s) = z"
    by (simp add: 3)
  have "orientation (c, [0, 0, s]) [x, y, z] =
     [x * cos t - y * sin t, x * sin t + y * cos t, z]"
    unfolding 1 2 using 4
    by (simp add: orientation_def hamilton_def conjugate_def add_vec_def scale_def algebra_simps)
  then show ?thesis
    by (simp add: c_def s_def)
qed

text \<open>
  So does \<open>rotate_quat\<close>, read without any notion of a product: the quaternion
  \<open>[cos (t/2), 0, 0, sin (t/2)]\<close> is the orientation turned by \<open>t\<close> about the third axis, and
  \<open>rotate_quat\<close> turns a vector by \<open>t\<close>, not by \<open>- t\<close>.
\<close>

lemma rotate_quat_about_third_axis:
  "rotate_quat [x, y, z] [cos (t / 2), 0, 0, sin (t / 2)] =
     Inr [x * cos t - y * sin t, x * sin t + y * cos t, z]"
  by (simp add: rotate_quat_sandwich orientation_about_third_axis)

text \<open>
  Claim C1, as amended. For every unit quaternion \<open>q\<close> and every 3-vector \<open>v\<close>,
  \<open>rotate_quat\<close> passes the conjugate of \<open>q\<close>, the pure quaternion \<open>(0, v)\<close> and \<open>q\<close> to
  \<open>multiply_quats\<close> in this order; since \<open>multiply_quats\<close> multiplies its operands in
  the reverse order, the result is the vector of the Hamilton product \<open>q (0, v) q\<^sup>*\<close>:
  \<open>v\<close> rotated by the orientation that \<open>q\<close> represents, not by its inverse.
\<close>

theorem rotate_quat_orientation:
  assumes "length v = 3" and "unit_quat q"
  shows "multiply_quats (0 # v) q = Inr (quat_list (hamilton (quat_of q) (0, v))) \<and>
         rotate_quat v q = Inr (orientation (quat_of q) v)"
proof -
  obtain a b c where v: "v = [a, b, c]"
    using length_3_cases [OF assms(1)] by blast
  from assms(2) have "length q = 4"
    by (simp add: unit_quat_def)
  then obtain w x y z where q: "q = [w, x, y, z]"
    using length_4_cases by blast
  show ?thesis
    unfolding v q by (simp add: multiply_quats_hamilton rotate_quat_sandwich quat_of_def)
qed

text \<open>
  At the unit quaternion \<open>[3/5, 0, 0, 4/5]\<close>, a turn about the third axis by the angle of
  cosine \<open>-7/25\<close> and sine \<open>24/25\<close>, the first axis goes to \<open>[-7/25, 24/25, 0]\<close>.
\<close>

theorem rotate_quat_orientation_witness:
  "length [1, 0, 0 :: real] = 3 \<and> unit_quat [3 / 5, 0, 0, 4 / 5] \<and>
   multiply_quats (0 # [1, 0, 0]) [3 / 5, 0, 0, 4 / 5] = Inr [0, 3 / 5, 4 / 5, 0] \<and>
   rotate_quat [1, 0, 0] [3 / 5, 0, 0, 4 / 5] = Inr [- 7 / 25, 24 / 25, 0]"
proof -
  have u: "unit_quat [3 / 5, 0, 0, 4 / 5]"
    by (simp add: unit_quat_def power2_eq_square)
  have l: "length [1, 0, 0 :: real] = 3"
    by simp
  show ?thesis
    using rotate_quat_orientation [OF l u] u
    by (simp add: quat_of_def quat_list_def hamilton_def conjugate_def add_vec_def scale_def
        orientation_def)
qed

text \<open>
  Claim C1 as stated fails there: the inverse orientation takes the first axis to
  \<open>[-7/25, -24/25, 0]\<close>, and \<open>rotate_quat\<close> returns \<open>[-7/25, 24/25, 0]\<close>.
\<close>

theorem rotate_quat_not_inverse:
  "rotate_quat [1, 0, 0] [3 / 5, 0, 0, 4 / 5] = Inr [- 7 / 25, 24 / 25, 0] \<and>
   orientation (conjugate (quat_of [3 / 5, 0, 0, 4 / 5])) [1, 0, 0] = [- 7 / 25, - 24 / 25, 0] \<and>
   rotate_quat [1, 0, 0] [3 / 5, 0, 0, 4 / 5] \<noteq>
     Inr (orientation (conjugate (quat_of [3 / 5, 0, 0, 4 / 5])) [1, 0, 0])"
  by (simp add: rotate_quat_def multiply_quats_def idx_def hamilton_def conjugate_def
      add_vec_def scale_def orientation_def quat_of_def)

section \<open>The parse loop\<close>

lemma parse_line_vertices:
  "parse_line m l = Inr m' \<Longrightarrow>
     length (vertices m') = length (vertices m) + (if record_of ''v'' l then 1 else 0)"
  by (auto simp: parse_line_def record_of_def idx_def Let_def
      split: list.splits sum.splits if_splits)

lemma parse_line_indices:
  "parse_line m l = Inr m' \<Longrightarrow>
     length (indices m') = length (indices m) + (if record_of ''f'' l then 1 else 0)"
  by (auto simp: parse_line_def record_of_def idx_def Let_def
      split: list.splits sum.splits if_splits)

lemma parse_from_counts:
  "parse_from m lines = Inr m' \<Longrightarrow>
     length (vertices m') = length (vertices m) + count_records ''v'' lines \<and>
     length (indices m') = length (indices m) + count_records ''f'' lines"
proof (induction lines arbitrary: m)
  case Nil
  then show ?case
    by (simp add: count_records_def)
next
  case (Cons l lines)
  from Cons.prems obtain m1
    where l: "parse_line m l = Inr m1" and r: "parse_from m1 lines = Inr m'"
    by (auto split: sum.splits)
  from Cons.IH [OF r] parse_line_vertices [OF l] parse_line_indices [OF l]
  show ?case
    by (simp add: count_records_def)
qed

lemma triangle_parsed:
  "parse_loop [''v 0 0 0\<newline>'', ''v 1 0 0\<newline>'', ''v 0 1 0\<newline>'', ''f 1 2 3\<newline>''] =
     Inr \<lparr>vertices = [[Finite 0, Finite 0, Finite 0], [Finite (- 1), Finite 0, Finite 0],
                       [Finite 0, Finite 1, Finite 0]],
          indices = [[0, 1, 2]]\<rparr>"
  by (simp add: parse_loop_def parse_line_def vertex_of_def token_defs)

lemma face_of_tokens:
  "face_of ts = Inr f \<Longrightarrow> map (\<lambda>i. Some (i + 1)) f = map py_int ts"
  by (induction ts arbitrary: f) (auto split: option.splits sum.splits)

lemma parse_line_faces:
  assumes "parse_line m l = Inr m'"
  shows "map (map (\<lambda>i. Some (i + 1))) (indices m') =
         map (map (\<lambda>i. Some (i + 1))) (indices m) @
         map (\<lambda>l. map py_int (face_tokens l)) (filter (record_of ''f'') [l])"
  using assms
  by (auto simp: parse_line_def record_of_def idx_def Let_def face_tokens_def
      split: list.splits sum.splits if_splits dest: face_of_tokens)

lemma parse_from_faces:
  "parse_from m lines = Inr m' \<Longrightarrow>
     map (map (\<lambda>i. Some (i + 1))) (indices m') =
     map (map (\<lambda>i. Some (i + 1))) (indices m) @
     map (\<lambda>l. map py_int (face_tokens l)) (filter (record_of ''f'') lines)"
proof (induction lines arbitrary: m)
  case Nil
  then show ?case by simp
next
  case (Cons l lines)
  from Cons.prems obtain m1
    where l: "parse_line m l = Inr m1" and r: "parse_from m1 lines = Inr m'"
    by (auto split: sum.splits)
  from Cons.IH [OF r] parse_line_faces [OF l] show ?case
    by simp
qed

lemma faces_in_range:
  assumes "map (map (\<lambda>i. Some (i + 1))) (indices m) =
           map (\<lambda>l. map py_int (face_tokens l)) (filter (record_of ''f'') lines)"
    and "tokens_in_range (length (vertices m)) lines"
  shows "indices_in_range m"
  unfolding indices_in_range_def list_all_iff
proof (intro ballI)
  fix f i
  assume f: "f \<in> set (indices m)" and i: "i \<in> set f"
  from f have "map (\<lambda>i. Some (i + 1)) f \<in> set (map (map (\<lambda>i. Some (i + 1))) (indices m))"
    by simp
  with assms(1) obtain l where l: "l \<in> set (filter (record_of ''f'') lines)"
    and e: "map (\<lambda>i. Some (i + 1)) f = map py_int (face_tokens l)"
    by auto
  from i have "Some (i + 1) \<in> set (map (\<lambda>i. Some (i + 1)) f)"
    by simp
  with e obtain t where "t \<in> set (face_tokens l)" and "py_int t = Some (i + 1)"
    by auto
  moreover from assms(2) l
  have "\<forall>t\<in>set (face_tokens l).
          case py_int t of None \<Rightarrow> False | Some j \<Rightarrow> 1 \<le> j \<and> j \<le> int (length (vertices m))"
    by (simp add: tokens_in_range_def list_all_iff)
  ultimately have "1 \<le> i + 1 \<and> i + 1 \<le> int (length (vertices m))"
    by fastforce
  then show "0 \<le> i \<and> i < int (length (vertices m))"
    by simp
qed

text \<open>
  Claim C2, as amended. Whenever the parse loop completes on a text with \<open>N\<close> vertex
  records and \<open>M\<close> face records, the mesh has exactly \<open>N\<close> vertices and exactly \<open>M\<close> faces,
  in the order of the records. The face of a face record has one index for each of its
  first three tokens after the tag, the integer of the token minus 1. Nothing compares
  an index with \<open>N\<close>: every index of every face lies in \<open>[0, N)\<close> when every such token is
  an integer from 1 to \<open>N\<close>.
\<close>

theorem parse_loop_counts:
  assumes "parse_loop lines = Inr m"
  shows "length (vertices m) = count_records ''v'' lines \<and>
         length (indices m) = count_records ''f'' lines \<and>
         map (map (\<lambda>i. Some (i + 1))) (indices m) =
           map (\<lambda>l. map py_int (face_tokens l)) (filter (record_of ''f'') lines) \<and>
         (tokens_in_range (count_records ''v'' lines) lines \<longrightarrow> indices_in_range m)"
proof -
  from assms have p: "parse_from \<lparr>vertices = [], indices = []\<rparr> lines = Inr m"
    by (simp add: parse_loop_def)
  from parse_from_counts [OF p]
  have c: "length (vertices m) = count_records ''v'' lines"
    "length (indices m) = count_records ''f'' lines"
    by simp_all
  from parse_from_faces [OF p]
  have f: "map (map (\<lambda>i. Some (i + 1))) (indices m) =
           map (\<lambda>l. map py_int (face_tokens l)) (filter (record_of ''f'') lines)"
    by simp
  from faces_in_range [OF f] c f show ?thesis
    by simp
qed

text \<open>
  On the triangle of the example the three index tokens are \<open>1\<close>, \<open>2\<close> and \<open>3\<close>, the text
  has three vertex records, and the face \<open>[0, 1, 2]\<close> is in range.
\<close>

theorem parse_loop_counts_witness:
  "parse_loop [''v 0 0 0\<newline>'', ''v 1 0 0\<newline>'', ''v 0 1 0\<newline>'', ''f 1 2 3\<newline>''] =
     Inr \<lparr>vertices = [[Finite 0, Finite 0, Finite 0], [Finite (- 1), Finite 0, Finite 0],
                       [Finite 0, Finite 1, Finite 0]],
          indices = [[0, 1, 2]]\<rparr> \<and>
   count_records ''v'' [''v 0 0 0\<newline>'', ''v 1 0 0\<newline>'', ''v 0 1 0\<newline>'', ''f 1 2 3\<newline>''] = 3 \<and>
   count_records ''f'' [''v 0 0 0\<newline>'', ''v 1 0 0\<newline>'', ''v 0 1 0\<newline>'', ''f 1 2 3\<newline>''] = 1 \<and>
   map py_int (face_tokens ''f 1 2 3\<newline>'') = [Some 1, Some 2, Some 3] \<and>
   tokens_in_range 3 [''v 0 0 0\<newline>'', ''v 1 0 0\<newline>'', ''v 0 1 0\<newline>'', ''f 1 2 3\<newline>''] \<and>
   indices_in_range
     \<lparr>vertices = [[Finite 0, Finite 0, Finite 0], [Finite (- 1), Finite 0, Finite 0],
                  [Finite 0, Finite 1, Finite 0]],
      indices = [[0, 1, 2]]\<rparr>"
proof -
  have t: "tokens_in_range 3
             [''v 0 0 0\<newline>'', ''v 1 0 0\<newline>'', ''v 0 1 0\<newline>'', ''f 1 2 3\<newline>'']"
    by (simp add: tokens_in_range_def record_of_def face_tokens_def token_defs)
  have r: "filter (record_of ''f'')
             [''v 0 0 0\<newline>'', ''v 1 0 0\<newline>'', ''v 0 1 0\<newline>'', ''f 1 2 3\<newline>''] = [''f 1 2 3\<newline>'']"
    by (simp add: record_of_def token_defs)
  note c = parse_loop_counts [OF triangle_parsed, unfolded r]
  have n: "count_records ''v''
             [''v 0 0 0\<newline>'', ''v 1 0 0\<newline>'', ''v 0 1 0\<newline>'', ''f 1 2 3\<newline>''] = 3"
    using c [THEN conjunct1, symmetric] by simp
  have m: "count_records ''f''
             [''v 0 0 0\<newline>'', ''v 1 0 0\<newline>'', ''v 0 1 0\<newline>'', ''f 1 2 3\<newline>''] = 1"
    using c [THEN conjunct2, THEN conjunct1, symmetric] by simp
  have i: "map py_int (face_tokens ''f 1 2 3\<newline>'') = [Some 1, Some 2, Some 3]"
    using c [THEN conjunct2, THEN conjunct2, THEN conjunct1, symmetric] by simp
  have "indices_in_range
     \<lparr>vertices = [[Finite 0, Finite 0, Finite 0], [Finite (- 1), Finite 0, Finite 0],
                  [Finite 0, Finite 1, Finite 0]],
      indices = [[0, 1, 2]]\<rparr>"
    using c [THEN conjunct2, THEN conjunct2, THEN conjunct2] t by (simp add: n)
  with triangle_parsed n m i t show ?thesis
    by simp
qed

text \<open>
  Claim C2 as stated fails on a face record that names vertices the text does not hold:
  the text of the single line \<^verbatim>\<open>f 1 2 3\<close> has no vertex record, and its face is parsed.
\<close>

theorem parse_loop_index_out_of_range:
  "parse_loop [''f 1 2 3\<newline>''] = Inr \<lparr>vertices = [], indices = [[0, 1, 2]]\<rparr> \<and>
   count_records ''v'' [''f 1 2 3\<newline>''] = 0 \<and>
   \<not> indices_in_range \<lparr>vertices = [], indices = [[0, 1, 2]]\<rparr>"
  by (simp add: parse_loop_def parse_line_def token_defs count_records_def record_of_def
      indices_in_range_def)

text \<open>The parse loop raises nothing but IndexError and ValueError.\<close>

lemma face_of_errors: "face_of ts = Inl e \<Longrightarrow> e = ValueError"
  by (induction ts arbitrary: e) (auto split: option.splits sum.splits)

lemma parse_line_errors: "parse_line m l = Inl e \<Longrightarrow> e = IndexError \<or> e = ValueError"
  by (auto simp: parse_line_def vertex_of_def float_at_def idx_def Let_def
      split: sum.splits option.splits if_splits dest: face_of_errors)

lemma parse_from_errors: "parse_from m lines = Inl e \<Longrightarrow> e = IndexError \<or> e = ValueError"
  by (induction lines arbitrary: m) (auto split: sum.splits dest: parse_line_errors)

lemma short_vertex_record_raises: "short_vertex_record l \<Longrightarrow> \<exists>e. parse_line m l = Inl e"
  by (auto simp: short_vertex_record_def parse_line_def idx_def Let_def vertex_of_def
      float_at_def split: list.splits sum.splits option.splits)

lemma parse_from_raises:
  "l \<in> set lines \<Longrightarrow> \<forall>m. \<exists>e. parse_line m l = Inl e \<Longrightarrow> \<exists>e. parse_from m lines = Inl e"
proof (induction lines arbitrary: m)
  case Nil
  then show ?case by simp
next
  case (Cons a lines)
  show ?case
  proof (cases "parse_line m a")
    case (Inl e)
    then show ?thesis by simp
  next
    case (Inr m1)
    with Cons.prems(2) have "a \<noteq> l"
      by (metis sum.distinct(1))
    with Cons.prems(1) have "l \<in> set lines"
      by simp
    from Cons.IH [OF this Cons.prems(2)] Inr show ?thesis
      by simp
  qed
qed

text \<open>
  Claim C3, as amended. There is no FormatError: a vertex record with fewer than three
  tokens after its tag raises IndexError (or ValueError, when one of its tokens is not
  a number), and a text that holds such a line aborts the loop with one of the two, at
  that line or before it.
\<close>

theorem short_vertex_record_aborts:
  assumes "short_vertex_record l" and "l \<in> set lines"
  shows "(parse_line m l = Inl IndexError \<or> parse_line m l = Inl ValueError) \<and>
         (parse_loop lines = Inl IndexError \<or> parse_loop lines = Inl ValueError)"
proof -
  have a: "\<exists>e. parse_line m' l = Inl e" for m'
    using short_vertex_record_raises [OF assms(1)] .
  then have "\<exists>e. parse_loop lines = Inl e"
    unfolding parse_loop_def using parse_from_raises [OF assms(2)] by blast
  then obtain e' where e': "parse_loop lines = Inl e'"
    by blast
  from a [of m] obtain e where e: "parse_line m l = Inl e"
    by blast
  from parse_line_errors [OF e] parse_from_errors [OF e' [unfolded parse_loop_def]] e e'
  show ?thesis
    by auto
qed

theorem short_vertex_record_aborts_witness:
  "short_vertex_record ''v 1 2\<newline>'' \<and>
   ''v 1 2\<newline>'' \<in> set [''v 0 0 0\<newline>'', ''v 1 2\<newline>''] \<and>
   parse_line \<lparr>vertices = [], indices = []\<rparr> ''v 1 2\<newline>'' = Inl IndexError \<and>
   parse_loop [''v 0 0 0\<newline>'', ''v 1 2\<newline>''] = Inl IndexError"
proof -
  have s: "short_vertex_record ''v 1 2\<newline>''"
    by (simp add: short_vertex_record_def token_defs)
  have i: "''v 1 2\<newline>'' \<in> set [''v 0 0 0\<newline>'', ''v 1 2\<newline>'']"
    by simp
  have v: "parse_line \<lparr>vertices = [], indices = []\<rparr> ''v 1 2\<newline>'' \<noteq> Inl ValueError"
    by (simp add: parse_line_def vertex_of_def token_defs)
  have w: "parse_loop [''v 0 0 0\<newline>'', ''v 1 2\<newline>''] \<noteq> Inl ValueError"
    by (simp add: parse_loop_def parse_line_def vertex_of_def token_defs)
  from short_vertex_record_aborts [OF s i, of "\<lparr>vertices = [], indices = []\<rparr>"] s i v w
  show ?thesis by simp
qed

text \<open>
  Claim C3 as stated fails on a face record with two index tokens: the slice
  \<^verbatim>\<open>tokens[1:4]\<close> is as short as the line, nothing raises, and the face has two indices.
\<close>

theorem short_face_record_parsed:
  "parse_loop [''f 1 2\<newline>''] = Inr \<lparr>vertices = [], indices = [[0, 1]]\<rparr>"
  by (simp add: parse_loop_def parse_line_def token_defs)

text \<open>
  A line with a first token other than \<open>v\<close> and \<open>f\<close> is skipped: the mesh is unchanged.
\<close>

lemma other_record_skipped:
  "py_split l = t # ts \<Longrightarrow> t \<noteq> ''v'' \<Longrightarrow> t \<noteq> ''f'' \<Longrightarrow> parse_line m l = Inr m"
  by (simp add: parse_line_def idx_def)

lemma comment_and_normal_skipped:
  "parse_loop [''# cube\<newline>'', ''vn 0 0 1\<newline>'', ''vt 0 1\<newline>'', ''g side\<newline>''] =
     Inr \<lparr>vertices = [], indices = []\<rparr>"
  by (simp add: parse_loop_def parse_line_def token_defs)

text \<open>
  Claim C4. A blank line is not skipped: it has no token, \<^verbatim>\<open>tokens[0]\<close> raises
  IndexError, and the loop is aborted.
\<close>

theorem blank_line_raises:
  "parse_loop [''v 0 0 0\<newline>'', ''\<newline>'', ''v 1 0 0\<newline>''] = Inl IndexError"
  by (simp add: parse_loop_def parse_line_def vertex_of_def token_defs)

text \<open>
  Claim C6, as amended. For a vertex record the parser reads the next three tokens as
  floats and appends them with the first one negated: the change of coordinates is made
  while parsing. The triangle of the example has the vertices \<open>[0, 0, 0]\<close>, \<open>[-1, 0, 0]\<close>
  and \<open>[0, 1, 0]\<close> and the face \<open>[0, 1, 2]\<close>.
\<close>

theorem vertex_record_appended:
  assumes "py_split l = ''v'' # t1 # t2 # t3 # rest"
    and "py_float t1 = Some x" and "py_float t2 = Some y" and "py_float t3 = Some z"
  shows "parse_line m l = Inr (m\<lparr>vertices := vertices m @ [[py_neg x, y, z]]\<rparr>) \<and>
         parse_loop [''v 0 0 0\<newline>'', ''v 1 0 0\<newline>'', ''v 0 1 0\<newline>'', ''f 1 2 3\<newline>''] =
           Inr \<lparr>vertices = [[Finite 0, Finite 0, Finite 0], [Finite (- 1), Finite 0, Finite 0],
                             [Finite 0, Finite 1, Finite 0]],
                indices = [[0, 1, 2]]\<rparr>"
  using assms triangle_parsed
  by (simp add: parse_line_def vertex_of_def float_at_def idx_def)

theorem vertex_record_appended_witness:
  "py_split ''v 1 0.5 -2 1.0\<newline>'' = [''v'', ''1'', ''0.5'', ''-2'', ''1.0''] \<and>
   py_float ''1'' = Some (Finite 1) \<and> py_float ''0.5'' = Some (Finite (1 / 2)) \<and>
   py_float ''-2'' = Some (Finite (- 2)) \<and>
   parse_line \<lparr>vertices = [], indices = []\<rparr> ''v 1 0.5 -2 1.0\<newline>'' =
     Inr \<lparr>vertices = [[Finite (- 1), Finite (1 / 2), Finite (- 2)]], indices = []\<rparr>"
proof -
  have s: "py_split ''v 1 0.5 -2 1.0\<newline>'' = ''v'' # ''1'' # ''0.5'' # ''-2'' # [''1.0'']"
    by (simp add: token_defs)
  have x: "py_float ''1'' = Some (Finite 1)"
    by (simp add: token_defs)
  have y: "py_float ''0.5'' = Some (Finite (1 / 2))"
    by (simp add: token_defs)
  have z: "py_float ''-2'' = Some (Finite (- 2))"
    by (simp add: token_defs)
  from vertex_record_appended [OF s x y z, of "\<lparr>vertices = [], indices = []\<rparr>"] s x y z
  show ?thesis by simp
qed

text \<open>
  Claim C6 as stated fails on its own example: the second vertex is \<open>[-1, 0, 0]\<close>, not
  \<open>[1, 0, 0]\<close>.
\<close>

theorem triangle_not_unchanged:
  "parse_loop [''v 0 0 0\<newline>'', ''v 1 0 0\<newline>'', ''v 0 1 0\<newline>'', ''f 1 2 3\<newline>''] \<noteq>
     Inr \<lparr>vertices = [[Finite 0, Finite 0, Finite 0], [Finite 1, Finite 0, Finite 0],
                       [Finite 0, Finite 1, Finite 0]],
          indices = [[0, 1, 2]]\<rparr>"
  by (simp add: parse_loop_def parse_line_def vertex_of_def token_defs)

section \<open>The camera\<close>

lemma rotate_quat_identity: "rotate_quat [a, b, c] [1, 0, 0, 0] = Inr [a, b, c]"
  by (simp add: rotate_quat_def multiply_quats_def idx_def)

text \<open>
  Claim C5. With the identity quaternion the camera's origin is the transformed
  location, \<open>look_at\<close> is the origin plus the transformed \<open>(0, 0, -1)\<close> and \<open>up\<close> is the
  transformed \<open>(0, 1, 0)\<close>, exactly, whatever the change of coordinates; the field of view
  is the lens angle in degrees. With the identity for the change of coordinates, the
  location \<open>(0, 0, 0)\<close> and the lens angle of 45 degrees in radians, the camera has the
  origin \<open>(0, 0, 0)\<close>, looks at \<open>(0, 0, -1)\<close> with \<open>(0, 1, 0)\<close> up, and has the field of view
  45.
\<close>

theorem identity_camera:
  assumes "transform (take 3 location) = Inr p"
    and "transform [0, 0, - 1] = Inr f" and "transform [0, 1, 0] = Inr u"
  shows "camera_with transform [1, 0, 0, 0] location resolution_x resolution_y angle =
           Inr \<lparr>film_dimensions = [resolution_x, resolution_y], origin = p,
                look_at = add_vec p f, up = u, field_of_view = degrees angle\<rparr> \<and>
         camera_with Inr [1, 0, 0, 0] [0, 0, 0] resolution_x resolution_y (45 * pi / 180) =
           Inr \<lparr>film_dimensions = [resolution_x, resolution_y], origin = [0, 0, 0],
                look_at = [0, 0, - 1], up = [0, 1, 0], field_of_view = 45\<rparr>"
  using assms
  by (simp add: camera_with_def rotate_quat_identity add_vec_def degrees_def)

text \<open>
  The script's change of coordinates is \<open>xzy_to_xyz\<close>: at the location \<open>(1, 2, 3)\<close> its
  camera has the origin \<open>(1, 3, 2)\<close>, looks at \<open>(1, 3, 2) + (0, -1, 0)\<close> and has \<open>(0, 0, 1)\<close>
  up.
\<close>

theorem identity_camera_witness:
  "xzy_to_xyz (take 3 [1, 2, 3 :: real]) = Inr [1, 3, 2] \<and>
   xzy_to_xyz [0, 0, - 1 :: real] = Inr [0, - 1, 0] \<and>
   xzy_to_xyz [0, 1, 0 :: real] = Inr [0, 0, 1] \<and>
   scene_camera [1, 0, 0, 0] [1, 2, 3] 1920 1080 (45 * pi / 180) =
     Inr \<lparr>film_dimensions = [1920, 1080], origin = [1, 3, 2], look_at = [1, 2, 2],
          up = [0, 0, 1], field_of_view = 45\<rparr> \<and>
   camera_with Inr [1, 0, 0, 0] [0, 0, 0] 1920 1080 (45 * pi / 180) =
     Inr \<lparr>film_dimensions = [1920, 1080], origin = [0, 0, 0], look_at = [0, 0, - 1],
          up = [0, 1, 0], field_of_view = 45\<rparr>"
proof -
  have p: "xzy_to_xyz (take 3 [1, 2, 3 :: real]) = Inr [1, 3, 2]"
    by (simp add: xzy_to_xyz_def idx_def)
  have f: "xzy_to_xyz [0, 0, - 1 :: real] = Inr [0, - 1, 0]"
    by (simp add: xzy_to_xyz_def idx_def)
  have u: "xzy_to_xyz [0, 1, 0 :: real] = Inr [0, 0, 1]"
    by (simp add: xzy_to_xyz_def idx_def)
  from identity_camera [OF p f u, of 1920 1080 "45 * pi / 180"] p f u show ?thesis
    by (simp add: scene_camera_def add_vec_def degrees_def)
qed

text \<open>
  The script cannot be given the identity for its change of coordinates: at the
  location \<open>(0, 0, 0)\<close> its camera looks at \<open>(0, -1, 0)\<close> with \<open>(0, 0, 1)\<close> up, the two
  vectors of the claim with their second and third components exchanged.
\<close>

lemma scene_camera_at_origin:
  "scene_camera [1, 0, 0, 0] [0, 0, 0] 1920 1080 (45 * pi / 180) =
     Inr \<lparr>film_dimensions = [1920, 1080], origin = [0, 0, 0], look_at = [0, - 1, 0],
          up = [0, 0, 1], field_of_view = 45\<rparr>"
  by (simp add: scene_camera_def camera_with_def rotate_quat_identity xzy_to_xyz_def idx_def
      add_vec_def degrees_def)

section \<open>Default colours\<close>

text \<open>
  Claim C9, as amended. When the world has a node tree with no node named
  \<open>Background\<close>, the environment is the light gray \<open>(0.8, 0.8, 0.8)\<close>, not mid-gray; when
  a mesh has no material slot, or its first slot holds a material whose node tree has no
  node named \<open>Diffuse BSDF\<close>, its colour is the mid-gray \<open>(0.5, 0.5, 0.5)\<close>. These cases
  raise nothing.
\<close>

theorem default_colours:
  "(scene_world = Some (Some world_nodes) \<and> world_nodes ''Background'' = None \<longrightarrow>
      environment scene_world = Inr [0.8, 0.8, 0.8]) \<and>
   (materials = [] \<or>
    (materials = Some (Some material_nodes) # slots \<and> material_nodes ''Diffuse BSDF'' = None) \<longrightarrow>
      color materials = Inr [0.5, 0.5, 0.5])"
  by (auto simp: environment_def color_def numeral_3_eq_3)

theorem default_colours_witness:
  "Map.empty ''Background'' = None \<and>
   environment (Some (Some Map.empty)) = Inr [0.8, 0.8, 0.8] \<and>
   color [] = Inr [0.5, 0.5, 0.5] \<and>
   [''Principled BSDF'' \<mapsto> [[1, 0, 0, 1 :: real]]] ''Diffuse BSDF'' = None \<and>
   color [Some (Some [''Principled BSDF'' \<mapsto> [[1, 0, 0, 1]]]), None] = Inr [0.5, 0.5, 0.5]"
  using default_colours [of "Some (Some Map.empty)" Map.empty "[]"]
    default_colours [of "Some (Some Map.empty)" Map.empty
      "[Some (Some [''Principled BSDF'' \<mapsto> [[1, 0, 0, 1]]]), None]"
      "[''Principled BSDF'' \<mapsto> [[1, 0, 0, 1]]]" "[None]"]
  by simp

text \<open>
  Claim C9 as stated fails on a world whose node tree has no \<open>Background\<close> node: its
  environment is not mid-gray.
\<close>

theorem default_environment_not_mid_gray:
  "environment (Some (Some Map.empty)) = Inr [0.8, 0.8, 0.8] \<and>
   environment (Some (Some Map.empty)) \<noteq> Inr [0.5, 0.5, 0.5]"
  by (simp add: environment_def numeral_3_eq_3)

text \<open>
  Outside the cases of the amended claim the script raises: on a scene without a world,
  on a world or a first material without a node tree, and on an empty first slot, the
  membership test reads an attribute of \<open>None\<close>.
\<close>

lemma missing_node_tree_raises:
  "environment None = Inl AttributeError"
  "environment (Some None) = Inl AttributeError"
  "color (None # slots) = Inl AttributeError"
  "color (Some None # slots) = Inl AttributeError"
  by (simp_all add: environment_def color_def)

section \<open>The changes of coordinates\<close>

text \<open>
  Claim C10. The two changes of coordinates of the repository, the exchange of the
  second and third components in \<open>xzy_to_xyz\<close> and the negation of the first component
  in the parse loops, are their own inverses: applied twice to a 3-vector they return
  it, exactly, hence within \<open>10\<^sup>-\<^sup>9\<close> in every component.
\<close>

theorem transforms_self_inverse:
  assumes "length v = 3" and "length u = 3" and "length (r :: real list) = 3"
  shows "(\<exists>w. xzy_to_xyz v = Inr w \<and> xzy_to_xyz w = Inr v) \<and>
         negate_x (negate_x u) = u \<and>
         (\<exists>w w'. xzy_to_xyz r = Inr w \<and> xzy_to_xyz w = Inr w' \<and>
                 (\<forall>i < 3. \<bar>w' ! i - r ! i\<bar> \<le> 1 / 10 ^ 9))"
proof -
  obtain a b c where v: "v = [a, b, c]"
    using length_3_cases [OF assms(1)] by blast
  obtain d e f where u: "u = [d, e, f]"
    using length_3_cases [OF assms(2)] by blast
  obtain x y z where r: "r = [x, y, z]"
    using length_3_cases [OF assms(3)] by blast
  show ?thesis
    unfolding v u r by (simp add: xzy_to_xyz_def idx_def py_neg_twice)
qed

theorem transforms_self_inverse_witness:
  "length [1, 2, 3 :: int] = 3 \<and>
   xzy_to_xyz [1, 2, 3 :: int] = Inr [1, 3, 2] \<and> xzy_to_xyz [1, 3, 2 :: int] = Inr [1, 2, 3] \<and>
   negate_x [Finite 1, Finite 2, PosInf] = [Finite (- 1), Finite 2, PosInf] \<and>
   negate_x [Finite (- 1), Finite 2, PosInf] = [Finite 1, Finite 2, PosInf]"
  using transforms_self_inverse [of "[1, 2, 3 :: int]" "[Finite 1, Finite 2, PosInf]" "[1, 2, 3]"]
  by (simp add: xzy_to_xyz_def idx_def)

section \<open>The compaction of short vectors\<close>

subsection \<open>The pieces of a pattern\<close>

lemma literal_Some [simp]: "literal p s = Some r \<longleftrightarrow> s = p @ r"
  by (auto simp: literal_def) (metis append_take_drop_id)

lemma literal_Nil [simp]: "literal [] s = Some s"
  by (simp add: literal_def)

lemma literal_Cons_Nil [simp]: "literal (c # p) [] = None"
  by (simp add: literal_def)

lemma literal_Cons_Cons [simp]:
  "literal (c # p) (d # s) = (if c = d then literal p s else None)"
  by (simp add: literal_def)

lemma literal_None_hd: "p \<noteq> [] \<Longrightarrow> s = [] \<or> hd s \<noteq> hd p \<Longrightarrow> literal p s = None"
  by (cases p; cases s) (auto simp: literal_def)

lemma spaces_indent: "t = [] \<or> hd t \<noteq> CHR '' '' \<Longrightarrow> spaces (indent k @ t) = t"
  by (induction k) (auto simp: spaces_def indent_def dropWhile_eq_self_iff)

lemma spaces_sound: "\<exists>k. s = indent k @ spaces s"
proof (induction s)
  case Nil
  show ?case by (rule exI [of _ 0]) (simp add: indent_def spaces_def)
next
  case (Cons c s)
  show ?case
  proof (cases "c = CHR '' ''")
    case True
    from Cons obtain k where "s = indent k @ spaces s" by blast
    then have "c # s = indent (Suc k) @ spaces (c # s)"
      using True by (simp add: indent_def spaces_def)
    then show ?thesis by blast
  next
    case False
    then have "c # s = indent 0 @ spaces (c # s)" by (simp add: indent_def spaces_def)
    then show ?thesis by blast
  qed
qed

lemma digits_sound:
  "digits s = Some (d, r) \<Longrightarrow>
     s = d @ r \<and> d \<noteq> [] \<and> (\<forall>c\<in>set d. is_digit c) \<and> (r = [] \<or> \<not> is_digit (hd r))"
  by (auto simp: digits_def split: if_splits dest: set_takeWhileD hd_dropWhile)

lemma digits_complete:
  "d \<noteq> [] \<Longrightarrow> \<forall>c\<in>set d. is_digit c \<Longrightarrow> r = [] \<or> \<not> is_digit (hd r) \<Longrightarrow>
     digits (d @ r) = Some (d, r)"
proof -
  assume d: "d \<noteq> []" "\<forall>c\<in>set d. is_digit c" and r: "r = [] \<or> \<not> is_digit (hd r)"
  from r have "takeWhile is_digit r = []" "dropWhile is_digit r = r"
    by (cases r; simp)+
  with d show ?thesis
    by (simp add: digits_def takeWhile_append2 dropWhile_append2)
qed

lemma fraction_sound:
  "fraction s = Some (fr, r) \<Longrightarrow>
     \<exists>fp. fr = CHR ''.'' # fp \<and> s = fr @ r \<and> fp \<noteq> [] \<and> (\<forall>c\<in>set fp. is_digit c) \<and>
          (r = [] \<or> \<not> is_digit (hd r))"
  by (auto simp: fraction_def bind_eq_Some_conv dest!: digits_sound)

lemma fraction_complete:
  "fp \<noteq> [] \<Longrightarrow> \<forall>c\<in>set fp. is_digit c \<Longrightarrow> r = [] \<or> \<not> is_digit (hd r) \<Longrightarrow>
     fraction (CHR ''.'' # fp @ r) = Some (CHR ''.'' # fp, r)"
  by (simp add: fraction_def digits_complete)

lemma fraction_None: "s = [] \<or> hd s \<noteq> CHR ''.'' \<Longrightarrow> fraction s = None"
  by (simp add: fraction_def literal_None_hd)

lemma is_digit_simps [simp]:
  "\<not> is_digit (CHR ''-'')" "\<not> is_digit (CHR ''.'')" "\<not> is_digit (CHR '','')"
  "\<not> is_digit (CHR ''\<newline>'')" "\<not> is_digit (CHR '' '')" "\<not> is_digit (CHR ''['')"
  "\<not> is_digit (CHR '']'')"
  by (simp_all add: is_digit_def)

lemma minus_sign_sound:
  "minus_sign s = (sg, s1) \<Longrightarrow> s = sg @ s1 \<and> (sg = [] \<and> (s = [] \<or> hd s \<noteq> CHR ''-'') \<or> sg = ''-'')"
  by (cases s) (auto simp: minus_sign_def split: option.splits if_splits)

lemma minus_sign_complete:
  "sg = [] \<and> (s1 = [] \<or> hd s1 \<noteq> CHR ''-'') \<or> sg = ''-'' \<Longrightarrow> minus_sign (sg @ s1) = (sg, s1)"
  by (cases s1) (auto simp: minus_sign_def split: option.splits)

lemma number_sound:
  assumes "number_pattern s = Some (n, r)"
  shows "\<exists>sg ip fr. n = sg @ ip @ fr \<and> s = n @ r \<and> (sg = [] \<or> sg = ''-'') \<and>
           ip \<noteq> [] \<and> (\<forall>c\<in>set ip. is_digit c) \<and>
           (fr = [] \<and> fraction r = None \<or>
            (\<exists>fp. fr = CHR ''.'' # fp \<and> fp \<noteq> [] \<and> (\<forall>c\<in>set fp. is_digit c))) \<and>
           (r = [] \<or> \<not> is_digit (hd r))"
proof -
  obtain sg s1 where m: "minus_sign s = (sg, s1)"
    by (cases "minus_sign s")
  from assms m obtain ip s2 where d: "digits s1 = Some (ip, s2)"
    by (auto simp: number_pattern_def bind_eq_Some_conv)
  note ms = minus_sign_sound [OF m] and ds = digits_sound [OF d]
  show ?thesis
  proof (cases "fraction s2")
    case None
    with assms m d have "n = sg @ ip" "r = s2"
      by (auto simp: number_pattern_def)
    with ms ds None show ?thesis
      by (intro exI [of _ sg] exI [of _ ip] exI [of _ "[]"]) auto
  next
    case (Some p)
    obtain fr s3 where p: "p = (fr, s3)"
      by (cases p)
    with assms m d Some have "n = sg @ ip @ fr" "r = s3"
      by (auto simp: number_pattern_def)
    with ms ds fraction_sound [OF Some [unfolded p]] show ?thesis
      by (intro exI [of _ sg] exI [of _ ip] exI [of _ fr]) auto
  qed
qed

lemma number_complete:
  assumes "sg = [] \<or> sg = ''-''" and "ip \<noteq> []" and "\<forall>c\<in>set ip. is_digit c"
    and "fr = [] \<and> fraction r = None \<or>
         (\<exists>fp. fr = CHR ''.'' # fp \<and> fp \<noteq> [] \<and> (\<forall>c\<in>set fp. is_digit c))"
    and "r = [] \<or> \<not> is_digit (hd r)"
  shows "number_pattern (sg @ ip @ fr @ r) = Some (sg @ ip @ fr, r)"
proof -
  from assms(2,3) have "hd (ip @ fr @ r) \<noteq> CHR ''-''"
    by (cases ip) auto
  with assms(1,2) have m: "minus_sign (sg @ ip @ fr @ r) = (sg, ip @ fr @ r)"
    by (intro minus_sign_complete) auto
  from assms(4,5) have "fr @ r = [] \<or> \<not> is_digit (hd (fr @ r))"
    by auto
  with assms(2,3) have d: "digits (ip @ fr @ r) = Some (ip, fr @ r)"
    by (intro digits_complete) auto
  from assms(4) show ?thesis
  proof
    assume "fr = [] \<and> fraction r = None"
    with m d show ?thesis
      by (simp add: number_pattern_def)
  next
    assume "\<exists>fp. fr = CHR ''.'' # fp \<and> fp \<noteq> [] \<and> (\<forall>c\<in>set fp. is_digit c)"
    then obtain fp where fp: "fr = CHR ''.'' # fp" "fp \<noteq> []" "\<forall>c\<in>set fp. is_digit c"
      by blast
    with assms(5) have "fraction (fr @ r) = Some (fr, r)"
      by (simp add: fraction_complete)
    with m d show ?thesis
      by (simp add: number_pattern_def)
  qed
qed

lemma number_is_number:
  assumes "number_pattern s = Some (n, r)"
  shows "s = n @ r \<and> is_number n"
proof -
  from number_sound [OF assms] obtain sg ip fr where
    *: "n = sg @ ip @ fr" "s = n @ r" "sg = [] \<or> sg = ''-''" "ip \<noteq> []" "\<forall>c\<in>set ip. is_digit c"
       "fr = [] \<and> fraction r = None \<or>
        (\<exists>fp. fr = CHR ''.'' # fp \<and> fp \<noteq> [] \<and> (\<forall>c\<in>set fp. is_digit c))"
    by blast
  from *(6) have "fr = [] \<and> fraction [] = None \<or>
        (\<exists>fp. fr = CHR ''.'' # fp \<and> fp \<noteq> [] \<and> (\<forall>c\<in>set fp. is_digit c))"
    by (auto simp: fraction_None)
  from number_complete [OF *(3,4,5) this, of ] * show ?thesis
    by (simp add: is_number_def)
qed

lemma is_number_extend:
  assumes "is_number n" and "\<not> is_digit c" and "c \<noteq> CHR ''.''"
  shows "number_pattern (n @ c # t) = Some (n, c # t)"
proof -
  from assms(1) have "number_pattern n = Some (n, [])"
    by (simp add: is_number_def)
  from number_sound [OF this] obtain sg ip fr where
    *: "n = sg @ ip @ fr" "sg = [] \<or> sg = ''-''" "ip \<noteq> []" "\<forall>c\<in>set ip. is_digit c"
       "fr = [] \<and> fraction [] = None \<or>
        (\<exists>fp. fr = CHR ''.'' # fp \<and> fp \<noteq> [] \<and> (\<forall>c\<in>set fp. is_digit c))"
    by blast
  from *(5) assms(3) have "fr = [] \<and> fraction (c # t) = None \<or>
        (\<exists>fp. fr = CHR ''.'' # fp \<and> fp \<noteq> [] \<and> (\<forall>c\<in>set fp. is_digit c))"
    by (auto simp: fraction_None)
  from number_complete [OF *(2,3,4) this] assms(2) * show ?thesis
    by simp
qed

lemma is_number_chars:
  assumes "is_number n"
  shows "n \<noteq> [] \<and> (\<forall>c\<in>set n. is_digit c \<or> c = CHR ''-'' \<or> c = CHR ''.'')"
proof -
  from assms have "number_pattern n = Some (n, [])"
    by (simp add: is_number_def)
  from number_sound [OF this] show ?thesis
    by auto
qed

lemma is_number_hd:
  "is_number n \<Longrightarrow> hd n \<noteq> CHR '' '' \<and> hd n \<noteq> CHR ''\<newline>'' \<and> hd n \<noteq> CHR ''[''"
  using is_number_chars [of n] by (cases n) auto

lemma is_number_no_bracket: "is_number n \<Longrightarrow> CHR ''['' \<notin> set n"
  using is_number_chars [of n] by auto

lemma element_sound:
  assumes "number_pattern (spaces s) = Some (a, r)"
  shows "\<exists>k. s = indent k @ a @ r \<and> is_number a"
proof -
  from spaces_sound [of s] obtain k where "s = indent k @ spaces s"
    by blast
  with number_is_number [OF assms] show ?thesis
    by metis
qed

lemma element_complete:
  assumes "is_number a" and "\<not> is_digit c" and "c \<noteq> CHR ''.''"
  shows "number_pattern (spaces (indent k @ a @ c # t)) = Some (a, c # t)"
proof -
  from is_number_chars [OF assms(1)] is_number_hd [OF assms(1)]
  have "hd (a @ c # t) \<noteq> CHR '' ''"
    by (cases a) auto
  then have "spaces (indent k @ a @ c # t) = a @ c # t"
    by (intro spaces_indent) simp
  with is_number_extend [OF assms] show ?thesis
    by simp
qed

lemma closing_sound:
  assumes "literal '']'' (spaces s) = Some r"
  shows "\<exists>k. s = indent k @ '']'' @ r"
proof -
  from spaces_sound [of s] obtain k where "s = indent k @ spaces s"
    by blast
  with assms show ?thesis
    by (metis literal_Some)
qed

lemma closing_complete: "literal '']'' (spaces (indent k @ '']'' @ r)) = Some r"
  by (simp add: spaces_indent)

lemma double_sound:
  assumes "double_pattern s = Some (g, rest)"
  shows "\<exists>k1 k2 k3 a b. is_number a \<and> is_number b \<and> g = [a, b] \<and>
           s = double_text k1 k2 k3 a b @ rest"
proof -
  from assms obtain s1 a s2 s3 b s4 s5 where
    1: "s = ''[\<newline>'' @ s1" and 2: "number_pattern (spaces s1) = Some (a, s2)" and
    3: "s2 = '',\<newline>'' @ s3" and 4: "number_pattern (spaces s3) = Some (b, s4)" and
    5: "s4 = ''\<newline>'' @ s5" and 6: "literal '']'' (spaces s5) = Some rest" and g: "g = [a, b]"
    by (auto simp: double_pattern_def bind_eq_Some_conv)
  from element_sound [OF 2] obtain k1 where a: "s1 = indent k1 @ a @ s2" "is_number a"
    by blast
  from element_sound [OF 4] obtain k2 where b: "s3 = indent k2 @ b @ s4" "is_number b"
    by blast
  from closing_sound [OF 6] obtain k3 where c: "s5 = indent k3 @ '']'' @ rest"
    by blast
  have "s = double_text k1 k2 k3 a b @ rest"
    unfolding double_text_def 1 a(1) 3 b(1) 5 c by simp
  with a b g show ?thesis
    by blast
qed

lemma double_complete:
  assumes "is_number a" and "is_number b"
  shows "double_pattern (double_text k1 k2 k3 a b @ rest) = Some ([a, b], rest)"
proof -
  have a: "number_pattern (spaces (indent k1 @ a @ CHR '','' # t)) = Some (a, CHR '','' # t)" for t
    using element_complete [OF assms(1), of "CHR '',''"] by simp
  have b: "number_pattern (spaces (indent k2 @ b @ CHR ''\<newline>'' # t)) = Some (b, CHR ''\<newline>'' # t)" for t
    using element_complete [OF assms(2), of "CHR ''\<newline>''"] by simp
  show ?thesis
    by (simp add: double_pattern_def double_text_def a b spaces_indent)
qed

lemma triple_sound:
  assumes "triple_pattern s = Some (g, rest)"
  shows "\<exists>k1 k2 k3 k4 a b c. is_number a \<and> is_number b \<and> is_number c \<and> g = [a, b, c] \<and>
           s = triple_text k1 k2 k3 k4 a b c @ rest"
proof -
  from assms obtain s1 a s2 s3 b s4 s5 c s6 s7 where
    1: "s = ''[\<newline>'' @ s1" and 2: "number_pattern (spaces s1) = Some (a, s2)" and
    3: "s2 = '',\<newline>'' @ s3" and 4: "number_pattern (spaces s3) = Some (b, s4)" and
    5: "s4 = '',\<newline>'' @ s5" and 6: "number_pattern (spaces s5) = Some (c, s6)" and
    7: "s6 = ''\<newline>'' @ s7" and 8: "literal '']'' (spaces s7) = Some rest" and
    g: "g = [a, b, c]"
    by (auto simp: triple_pattern_def bind_eq_Some_conv)
  from element_sound [OF 2] obtain k1 where a: "s1 = indent k1 @ a @ s2" "is_number a"
    by blast
  from element_sound [OF 4] obtain k2 where b: "s3 = indent k2 @ b @ s4" "is_number b"
    by blast
  from element_sound [OF 6] obtain k3 where c: "s5 = indent k3 @ c @ s6" "is_number c"
    by blast
  from closing_sound [OF 8] obtain k4 where d: "s7 = indent k4 @ '']'' @ rest"
    by blast
  have "s = triple_text k1 k2 k3 k4 a b c @ rest"
    unfolding triple_text_def 1 a(1) 3 b(1) 5 c(1) 7 d by simp
  with a b c g show ?thesis
    by blast
qed

lemma triple_complete:
  assumes "is_number a" and "is_number b" and "is_number c"
  shows "triple_pattern (triple_text k1 k2 k3 k4 a b c @ rest) = Some ([a, b, c], rest)"
proof -
  have a: "number_pattern (spaces (indent k1 @ a @ CHR '','' # t)) = Some (a, CHR '','' # t)" for t
    using element_complete [OF assms(1), of "CHR '',''"] by simp
  have b: "number_pattern (spaces (indent k2 @ b @ CHR '','' # t)) = Some (b, CHR '','' # t)" for t
    using element_complete [OF assms(2), of "CHR '',''"] by simp
  have c: "number_pattern (spaces (indent k3 @ c @ CHR ''\<newline>'' # t)) = Some (c, CHR ''\<newline>'' # t)" for t
    using element_complete [OF assms(3), of "CHR ''\<newline>''"] by simp
  show ?thesis
    by (simp add: triple_pattern_def triple_text_def a b c spaces_indent)
qed

text \<open>A vector of three elements is no match of the pattern of two.\<close>

lemma double_not_triple:
  assumes "is_number a" and "is_number b" and "is_number c"
  shows "double_pattern (triple_text k1 k2 k3 k4 a b c @ rest) = None"
proof -
  have a: "number_pattern (spaces (indent k1 @ a @ CHR '','' # t)) = Some (a, CHR '','' # t)" for t
    using element_complete [OF assms(1), of "CHR '',''"] by simp
  have b: "number_pattern (spaces (indent k2 @ b @ CHR '','' # t)) = Some (b, CHR '','' # t)" for t
    using element_complete [OF assms(2), of "CHR '',''"] by simp
  show ?thesis
    by (simp add: double_pattern_def triple_text_def a b)
qed

lemma indent_no_bracket [simp]: "CHR ''['' \<notin> set (indent k)"
  by (simp add: indent_def)

lemma bracketed_double: "bracketed double_pattern double_template"
  unfolding bracketed_def
proof (intro allI impI)
  fix s g rest
  assume "double_pattern s = Some (g, rest)"
  from double_sound [OF this] obtain k1 k2 k3 a b where
    *: "is_number a" "is_number b" "g = [a, b]" "s = double_text k1 k2 k3 a b @ rest"
    by blast
  let ?M = "indent k1 @ a @ '',\<newline>'' @ indent k2 @ b @ ''\<newline>'' @ indent k3 @ '']''"
  let ?w = "a @ '', '' @ b @ '']''"
  have t: "double_text k1 k2 k3 a b = CHR ''['' # CHR ''\<newline>'' # ?M"
    by (simp add: double_text_def)
  have 1: "s = CHR ''['' # CHR ''\<newline>'' # ?M @ rest"
    using *(4) t by simp
  have 2: "CHR ''['' \<notin> set ?M"
    using is_number_no_bracket [OF *(1)] is_number_no_bracket [OF *(2)] by simp
  have 3: "double_pattern (CHR ''['' # CHR ''\<newline>'' # ?M @ t) = Some (g, t)" for t
    using double_complete [OF *(1,2), of k1 k2 k3 t] *(3) t by simp
  have 4: "double_template g = CHR ''['' # ?w"
    using *(3) by (simp add: double_template_def)
  have 5: "?w \<noteq> [] \<and> hd ?w \<noteq> CHR ''\<newline>'' \<and> CHR ''['' \<notin> set ?w"
    using is_number_chars [OF *(1)] is_number_hd [OF *(1)]
      is_number_no_bracket [OF *(1)] is_number_no_bracket [OF *(2)] by (cases a) auto
  from 1 2 3 4 5
  show "\<exists>M w. s = CHR ''['' # CHR ''\<newline>'' # M @ rest \<and> CHR ''['' \<notin> set M \<and>
               (\<forall>t. double_pattern (CHR ''['' # CHR ''\<newline>'' # M @ t) = Some (g, t)) \<and>
               double_template g = CHR ''['' # w \<and> w \<noteq> [] \<and> hd w \<noteq> CHR ''\<newline>'' \<and>
               CHR ''['' \<notin> set w"
    by blast
qed

lemma bracketed_triple: "bracketed triple_pattern triple_template"
  unfolding bracketed_def
proof (intro allI impI)
  fix s g rest
  assume "triple_pattern s = Some (g, rest)"
  from triple_sound [OF this] obtain k1 k2 k3 k4 a b c where
    *: "is_number a" "is_number b" "is_number c" "g = [a, b, c]"
       "s = triple_text k1 k2 k3 k4 a b c @ rest"
    by blast
  let ?M = "indent k1 @ a @ '',\<newline>'' @ indent k2 @ b @ '',\<newline>'' @ indent k3 @ c @
            ''\<newline>'' @ indent k4 @ '']''"
  let ?w = "a @ '', '' @ b @ '', '' @ c @ '']''"
  have t: "triple_text k1 k2 k3 k4 a b c = CHR ''['' # CHR ''\<newline>'' # ?M"
    by (simp add: triple_text_def)
  have 1: "s = CHR ''['' # CHR ''\<newline>'' # ?M @ rest"
    using *(5) t by simp
  have 2: "CHR ''['' \<notin> set ?M"
    using is_number_no_bracket [OF *(1)] is_number_no_bracket [OF *(2)]
      is_number_no_bracket [OF *(3)] by simp
  have 3: "triple_pattern (CHR ''['' # CHR ''\<newline>'' # ?M @ t) = Some (g, t)" for t
    using triple_complete [OF *(1,2,3), of k1 k2 k3 k4 t] *(4) t by simp
  have 4: "triple_template g = CHR ''['' # ?w"
    using *(4) by (simp add: triple_template_def)
  have 5: "?w \<noteq> [] \<and> hd ?w \<noteq> CHR ''\<newline>'' \<and> CHR ''['' \<notin> set ?w"
    using is_number_chars [OF *(1)] is_number_hd [OF *(1)]
      is_number_no_bracket [OF *(1)] is_number_no_bracket [OF *(2)]
      is_number_no_bracket [OF *(3)] by (cases a) auto
  from 1 2 3 4 5
  show "\<exists>M w. s = CHR ''['' # CHR ''\<newline>'' # M @ rest \<and> CHR ''['' \<notin> set M \<and>
               (\<forall>t. triple_pattern (CHR ''['' # CHR ''\<newline>'' # M @ t) = Some (g, t)) \<and>
               triple_template g = CHR ''['' # w \<and> w \<noteq> [] \<and> hd w \<noteq> CHR ''\<newline>'' \<and>
               CHR ''['' \<notin> set w"
    by blast
qed

subsection \<open>Substitution of a bracketed pattern\<close>

lemma bracketedD:
  assumes "bracketed p r" and "p s = Some (g, rest)"
  obtains M w where "s = CHR ''['' # CHR ''\<newline>'' # M @ rest" and "CHR ''['' \<notin> set M"
    and "\<And>t. p (CHR ''['' # CHR ''\<newline>'' # M @ t) = Some (g, t)"
    and "r g = CHR ''['' # w" and "w \<noteq> []" and "hd w \<noteq> CHR ''\<newline>''" and "CHR ''['' \<notin> set w"
  using assms unfolding bracketed_def by blast

lemma no_match_hd:
  assumes "bracketed p r" and "s = [] \<or> hd s \<noteq> CHR ''[''"
  shows "p s = None"
proof (cases "p s")
  case None
  then show ?thesis .
next
  case (Some x)
  obtain g rest where "x = (g, rest)"
    by (cases x)
  with Some assms(1) obtain M where "s = CHR ''['' # CHR ''\<newline>'' # M @ rest"
    by (auto elim: bracketedD)
  with assms(2) show ?thesis
    by simp
qed

lemma no_match_second:
  assumes "bracketed p r" and "w \<noteq> []" and "hd w \<noteq> CHR ''\<newline>''"
  shows "p (c # w @ t) = None"
proof (cases "p (c # w @ t)")
  case None
  then show ?thesis .
next
  case (Some x)
  obtain g rest where "x = (g, rest)"
    by (cases x)
  with Some assms(1) obtain M where "c # w @ t = CHR ''['' # CHR ''\<newline>'' # M @ rest"
    by (auto elim: bracketedD)
  with assms(2,3) show ?thesis
    by (cases w) auto
qed

lemma re_sub_Nil:
  assumes "bracketed p r"
  shows "re_sub p r [] = []"
  using no_match_hd [OF assms, of "[]"] by (subst re_sub.simps) simp

lemma re_sub_copy: "p (c # cs) = None \<Longrightarrow> re_sub p r (c # cs) = c # re_sub p r cs"
  by (subst re_sub.simps) simp

lemma re_sub_match:
  assumes "bracketed p r" and "p s = Some (g, rest)"
  shows "re_sub p r s = r g @ re_sub p r rest"
proof -
  from assms obtain M where "s = CHR ''['' # CHR ''\<newline>'' # M @ rest"
    by (auto elim: bracketedD)
  then have "length rest < length s"
    by simp
  with assms(2) show ?thesis
    by (subst re_sub.simps) simp
qed

lemma re_sub_no_bracket:
  assumes "bracketed p r" and "CHR ''['' \<notin> set u"
  shows "re_sub p r (u @ t) = u @ re_sub p r t"
  using assms(2)
proof (induction u)
  case Nil
  show ?case by simp
next
  case (Cons c u)
  then have "p (c # u @ t) = None"
    by (intro no_match_hd [OF assms(1)]) auto
  with Cons show ?case
    by (simp add: re_sub_copy)
qed

text \<open>What the substitution returns before the first bracket, its argument had.\<close>

lemma re_sub_prefix:
  assumes "bracketed p r"
  shows "re_sub p r s = u @ t \<Longrightarrow> CHR ''['' \<notin> set u \<Longrightarrow> \<exists>t'. s = u @ t'"
proof (induction u arbitrary: s t)
  case Nil
  show ?case by simp
next
  case (Cons x u)
  from Cons.prems(1) re_sub_Nil [OF assms] obtain c cs where s: "s = c # cs"
    by (cases s) auto
  show ?case
  proof (cases "p s")
    case None
    with Cons.prems(1) s have "c = x" "re_sub p r cs = u @ t"
      by (simp_all add: re_sub_copy)
    with Cons.IH [of cs t] Cons.prems(2) s show ?thesis
      by auto
  next
    case (Some y)
    obtain g rest where y: "y = (g, rest)"
      by (cases y)
    from bracketedD [OF assms Some [unfolded y]] obtain w where "r g = CHR ''['' # w"
      by metis
    with re_sub_match [OF assms Some [unfolded y]] Cons.prems show ?thesis
      by simp
  qed
qed

lemma unmatched_fixed:
  assumes "bracketed p r"
  shows "unmatched p s \<Longrightarrow> re_sub p r s = s"
  by (induction s) (simp_all add: re_sub_Nil [OF assms] re_sub_copy)

lemma unmatched_no_bracket:
  assumes "bracketed p r" and "CHR ''['' \<notin> set w" and "unmatched p t"
  shows "unmatched p (w @ t)"
  using assms(2)
proof (induction w)
  case Nil
  from assms(3) show ?case by simp
next
  case (Cons c w)
  then have "p (c # w @ t) = None"
    by (intro no_match_hd [OF assms(1)]) auto
  with Cons show ?case
    by simp
qed

lemma unmatched_re_sub:
  assumes p: "bracketed p r" and q: "bracketed q r'"
  shows "(\<And>u v. s = u @ v \<Longrightarrow> q v \<noteq> None \<Longrightarrow> p v \<noteq> None) \<Longrightarrow> unmatched q (re_sub p r s)"
proof (induction s rule: length_induct)
  case (1 s)
  show ?case
  proof (cases s)
    case Nil
    then show ?thesis
      by (simp add: re_sub_Nil [OF p])
  next
    case (Cons c cs)
    show ?thesis
    proof (cases "p s")
      case None
      have "unmatched q (re_sub p r cs)"
      proof (rule "1.IH" [rule_format])
        show "length cs < length s"
          by (simp add: Cons)
      next
        fix u v
        assume "cs = u @ v" and "q v \<noteq> None"
        then show "p v \<noteq> None"
          using "1.prems" [of "c # u" v] by (simp add: Cons)
      qed
      moreover have "q (c # re_sub p r cs) = None"
      proof (rule ccontr)
        assume "q (c # re_sub p r cs) \<noteq> None"
        then obtain g rest where m: "q (c # re_sub p r cs) = Some (g, rest)"
          by auto
        from bracketedD [OF q m] obtain M where
          M: "c # re_sub p r cs = CHR ''['' # CHR ''\<newline>'' # M @ rest" "CHR ''['' \<notin> set M"
             "\<And>t. q (CHR ''['' # CHR ''\<newline>'' # M @ t) = Some (g, t)"
          by metis
        from M(1) have c: "c = CHR ''[''" and "re_sub p r cs = (CHR ''\<newline>'' # M) @ rest"
          by simp_all
        from re_sub_prefix [OF p this(2)] M(2) obtain t' where "cs = (CHR ''\<newline>'' # M) @ t'"
          by auto
        with M(3) [of t'] c Cons have "q s \<noteq> None"
          by simp
        with "1.prems" [of "[]" s] None show False
          by simp
      qed
      ultimately show ?thesis
        using None by (simp add: Cons re_sub_copy)
    next
      case (Some y)
      obtain g rest where y: "y = (g, rest)"
        by (cases y)
      from bracketedD [OF p Some [unfolded y]] obtain M w where
        M: "s = CHR ''['' # CHR ''\<newline>'' # M @ rest" "r g = CHR ''['' # w" "w \<noteq> []"
           "hd w \<noteq> CHR ''\<newline>''" "CHR ''['' \<notin> set w"
        by metis
      have "unmatched q (re_sub p r rest)"
      proof (rule "1.IH" [rule_format])
        show "length rest < length s"
          by (simp add: M(1))
      next
        fix u v
        assume "rest = u @ v" and "q v \<noteq> None"
        then show "p v \<noteq> None"
          using "1.prems" [of "CHR ''['' # CHR ''\<newline>'' # M @ u" v] by (simp add: M(1))
      qed
      then have "unmatched q (w @ re_sub p r rest)"
        by (rule unmatched_no_bracket [OF q M(5)])
      moreover have "q (CHR ''['' # w @ re_sub p r rest) = None"
        by (rule no_match_second [OF q M(3,4)])
      ultimately show ?thesis
        by (simp add: re_sub_match [OF p Some [unfolded y]] M(2))
    qed
  qed
qed

lemma unmatched_suffix: "unmatched p (u @ v) \<Longrightarrow> v \<noteq> [] \<Longrightarrow> p v = None"
  by (induction u) (auto, cases v, auto)

lemma append_before_bracket:
  assumes "cs @ W = N @ rest" and "CHR ''['' \<notin> set N" and "W = [] \<or> hd W = CHR ''[''"
  shows "\<exists>cs'. cs = N @ cs' \<and> rest = cs' @ W"
proof -
  from assms(1) have "(\<exists>us. cs = N @ us \<and> us @ W = rest) \<or> (\<exists>us. cs @ us = N \<and> W = us @ rest)"
    by (auto simp: append_eq_append_conv2)
  then show ?thesis
  proof
    assume "\<exists>us. cs = N @ us \<and> us @ W = rest"
    then show ?thesis by auto
  next
    assume "\<exists>us. cs @ us = N \<and> W = us @ rest"
    then obtain us where us: "cs @ us = N" "W = us @ rest"
      by blast
    show ?thesis
    proof (cases us)
      case Nil
      with us show ?thesis by auto
    next
      case (Cons x xs)
      with us have "hd W \<in> set N" "W \<noteq> []"
        by auto
      with assms(2,3) show ?thesis
        by auto
    qed
  qed
qed

lemma re_sub_append:
  assumes p: "bracketed p r" and W: "W = [] \<or> hd W = CHR ''[''"
  shows "re_sub p r (pre @ W) = re_sub p r pre @ re_sub p r W"
proof (induction pre rule: length_induct)
  case (1 pre)
  show ?case
  proof (cases pre)
    case Nil
    then show ?thesis
      by (simp add: re_sub_Nil [OF p])
  next
    case (Cons c cs)
    show ?thesis
    proof (cases "p (pre @ W)")
      case None
      have "p pre = None"
      proof (rule ccontr)
        assume "p pre \<noteq> None"
        then obtain g rest where m: "p pre = Some (g, rest)"
          by auto
        from bracketedD [OF p m] obtain M where
          "pre = CHR ''['' # CHR ''\<newline>'' # M @ rest"
          "\<And>t. p (CHR ''['' # CHR ''\<newline>'' # M @ t) = Some (g, t)"
          by metis
        then have "p (pre @ W) = Some (g, rest @ W)"
          by simp
        with None show False
          by simp
      qed
      with None "1.IH" [rule_format, of cs] show ?thesis
        by (simp add: Cons re_sub_copy)
    next
      case (Some y)
      obtain g rest where y: "y = (g, rest)"
        by (cases y)
      from bracketedD [OF p Some [unfolded y]] obtain M where
        M: "pre @ W = CHR ''['' # CHR ''\<newline>'' # M @ rest" "CHR ''['' \<notin> set M"
           "\<And>t. p (CHR ''['' # CHR ''\<newline>'' # M @ t) = Some (g, t)"
        by metis
      from M(1) Cons have c: "c = CHR ''[''" and "cs @ W = (CHR ''\<newline>'' # M) @ rest"
        by simp_all
      from append_before_bracket [OF this(2) _ W] M(2) obtain cs' where
        cs': "cs = (CHR ''\<newline>'' # M) @ cs'" "rest = cs' @ W"
        by auto
      from M(3) [of cs'] c cs'(1) Cons have m: "p pre = Some (g, cs')"
        by simp
      have "length cs' < length pre"
        by (simp add: Cons cs'(1))
      with "1.IH" have "re_sub p r (cs' @ W) = re_sub p r cs' @ re_sub p r W"
        by blast
      then show ?thesis
        by (simp add: re_sub_match [OF p Some [unfolded y]] re_sub_match [OF p m] cs'(2))
    qed
  qed
qed

lemma compaction_triple_text:
  assumes "is_number a" and "is_number b" and "is_number c"
  shows "compaction (pre @ triple_text k1 k2 k3 k4 a b c @ post) =
         compaction pre @ ''['' @ a @ '', '' @ b @ '', '' @ c @ '']'' @ compaction post"
proof -
  let ?D = "re_sub double_pattern double_template"
  let ?T = "re_sub triple_pattern triple_template"
  let ?V = "triple_text k1 k2 k3 k4 a b c"
  note d = bracketed_double and t = bracketed_triple
  obtain V' where V: "?V = CHR ''['' # V'" and V': "CHR ''['' \<notin> set V'"
    using is_number_no_bracket [OF assms(1)] is_number_no_bracket [OF assms(2)]
      is_number_no_bracket [OF assms(3)]
    by (simp add: triple_text_def)
  have hd: "hd (?V @ t) = CHR ''[''" for t
    by (simp add: V)
  have "?D (?V @ post) = CHR ''['' # ?D (V' @ post)"
    using double_not_triple [OF assms, of k1 k2 k3 k4 post] by (simp add: V re_sub_copy)
  also have "\<dots> = ?V @ ?D post"
    by (simp add: re_sub_no_bracket [OF d V'] V)
  finally have 0: "?D (?V @ post) = ?V @ ?D post" .
  have "?D (pre @ ?V @ post) = ?D pre @ ?D (?V @ post)"
    using hd by (intro re_sub_append [OF d]) simp
  with 0 have 1: "?D (pre @ ?V @ post) = ?D pre @ ?V @ ?D post"
    by simp
  have 2: "?T (?D pre @ ?V @ ?D post) = ?T (?D pre) @ ?T (?V @ ?D post)"
    using hd by (intro re_sub_append [OF t]) simp
  have 3: "?T (?V @ ?D post) = triple_template [a, b, c] @ ?T (?D post)"
    by (rule re_sub_match [OF t triple_complete [OF assms]])
  have 4: "triple_template [a, b, c] = ''['' @ a @ '', '' @ b @ '', '' @ c @ '']''"
    by (simp add: triple_template_def)
  show ?thesis
    unfolding compaction_def 1 2 3 4 by simp
qed

lemma compaction_double_text:
  assumes "is_number a" and "is_number b"
  shows "compaction (pre @ double_text k1 k2 k3 a b @ post) =
         compaction pre @ ''['' @ a @ '', '' @ b @ '']'' @ compaction post"
proof -
  let ?D = "re_sub double_pattern double_template"
  let ?T = "re_sub triple_pattern triple_template"
  let ?V = "double_text k1 k2 k3 a b"
  let ?w = "a @ '', '' @ b @ '']''"
  note d = bracketed_double and t = bracketed_triple
  have V: "hd (?V @ post) = CHR ''[''"
    by (simp add: double_text_def)
  have w: "?w \<noteq> []" "hd ?w \<noteq> CHR ''\<newline>''" "CHR ''['' \<notin> set ?w"
    using is_number_chars [OF assms(1)] is_number_hd [OF assms(1)]
      is_number_no_bracket [OF assms(1)] is_number_no_bracket [OF assms(2)]
    by (cases a; auto)+
  have 0: "double_template [a, b] = CHR ''['' # ?w"
    by (simp add: double_template_def)
  have "?D (pre @ ?V @ post) = ?D pre @ ?D (?V @ post)"
    using V by (intro re_sub_append [OF d]) simp
  moreover have "?D (?V @ post) = double_template [a, b] @ ?D post"
    by (rule re_sub_match [OF d double_complete [OF assms]])
  ultimately have 1: "?D (pre @ ?V @ post) = ?D pre @ (CHR ''['' # ?w) @ ?D post"
    unfolding 0 by simp
  have 2: "?T (?D pre @ (CHR ''['' # ?w) @ ?D post) =
           ?T (?D pre) @ ?T ((CHR ''['' # ?w) @ ?D post)"
    by (intro re_sub_append [OF t]) simp
  have "?T ((CHR ''['' # ?w) @ ?D post) = CHR ''['' # ?T (?w @ ?D post)"
    using no_match_second [OF t w(1,2), of "CHR ''[''" "?D post"] by (simp add: re_sub_copy)
  also have "\<dots> = (CHR ''['' # ?w) @ ?T (?D post)"
    using re_sub_no_bracket [OF t w(3), of "?D post"] by simp
  finally have 3: "?T ((CHR ''['' # ?w) @ ?D post) = (CHR ''['' # ?w) @ ?T (?D post)" .
  show ?thesis
    unfolding compaction_def 1 2 3 by simp
qed

subsection \<open>The pass\<close>

text \<open>
  Claim C8. The pass is idempotent on every text: the text it returns has no match of
  either pattern left, so that a second pass copies it.
\<close>

theorem compaction_idempotent: "compaction (compaction s) = compaction s"
proof -
  let ?D = "re_sub double_pattern double_template"
  let ?T = "re_sub triple_pattern triple_template"
  note d = bracketed_double and t = bracketed_triple
  have 1: "unmatched double_pattern (?D s)"
    by (rule unmatched_re_sub [OF d d])
  have 2: "unmatched double_pattern (?T (?D s))"
  proof (rule unmatched_re_sub [OF t d])
    fix u v
    assume "?D s = u @ v" and "double_pattern v \<noteq> None"
    with 1 unmatched_suffix [of double_pattern u v] no_match_hd [OF d, of v]
    show "triple_pattern v \<noteq> None"
      by (cases "v = []") auto
  qed
  have 3: "unmatched triple_pattern (?T (?D s))"
    by (rule unmatched_re_sub [OF t t])
  show ?thesis
    unfolding compaction_def
    by (simp add: unmatched_fixed [OF d 2] unmatched_fixed [OF t 3])
qed

text \<open>
  A vector of two or three numbers of the script, one a line, is put on one line with the
  text of its numbers unchanged, wherever it stands in the scene.
\<close>

lemma compaction_vectors:
  assumes "is_number a" and "is_number b" and "is_number c"
  shows "compaction (pre @ double_text k1 k2 k3 a b @ post) =
           compaction pre @ ''['' @ a @ '', '' @ b @ '']'' @ compaction post"
    and "compaction (pre @ triple_text k1 k2 k3 k4 a b c @ post) =
           compaction pre @ ''['' @ a @ '', '' @ b @ '', '' @ c @ '']'' @ compaction post"
  using assms by (simp_all only: compaction_double_text compaction_triple_text)

text \<open>
  A float that Python prints with an exponent is not a number of the script, nor are
  \<open>NaN\<close> and \<open>Infinity\<close>.
\<close>

lemma exponent_not_number:
  "is_number ''0.5''" "is_number ''-3.0''" "is_number ''1920''"
  "\<not> is_number ''9.999999747378752e-06''" "\<not> is_number ''1e+16''"
  "\<not> is_number ''NaN''" "\<not> is_number ''-Infinity''"
  by (simp_all add: is_number_def number_pattern_def minus_sign_def digits_def fraction_def
      is_digit_def)

text \<open>
  Claim C7. The pass does not put every vector of two or three numbers on one line. In
  the scene below the background colour has the red component \<open>0.00001\<close>, a single
  precision float that Python prints as \<^verbatim>\<open>9.999999747378752e-06\<close>: the four vectors of
  the camera are rewritten, and the environment stays on five lines.
\<close>

theorem exponent_vector_not_compacted:
  \<open>compaction
    (''{\<newline>'' @
     ''    "camera": {\<newline>'' @
     ''        "film_dimensions": [\<newline>'' @
     ''            1920,\<newline>'' @
     ''            1080\<newline>'' @
     ''        ],\<newline>'' @
     ''        "origin": [\<newline>'' @
     ''            0.0,\<newline>'' @
     ''            0.5,\<newline>'' @
     ''            -3.0\<newline>'' @
     ''        ],\<newline>'' @
     ''        "look_at": [\<newline>'' @
     ''            0.0,\<newline>'' @
     ''            -0.5,\<newline>'' @
     ''            -3.0\<newline>'' @
     ''        ],\<newline>'' @
     ''        "up": [\<newline>'' @
     ''            0.0,\<newline>'' @
     ''            0.0,\<newline>'' @
     ''            1.0\<newline>'' @
     ''        ],\<newline>'' @
     ''        "field_of_view": 39.59775270904986\<newline>'' @
     ''    },\<newline>'' @
     ''    "settings": {\<newline>'' @
     ''        "environment": [\<newline>'' @
     ''            9.999999747378752e-06,\<newline>'' @
     ''            0.5,\<newline>'' @
     ''            0.5\<newline>'' @
     ''        ],\<newline>'' @
     ''        "samples_per_pixel": 128,\<newline>'' @
     ''        "max_ray_depth": 12\<newline>'' @
     ''    },\<newline>'' @
     ''    "objects": {}\<newline>'' @
     ''}'') =
     ''{\<newline>'' @
     ''    "camera": {\<newline>'' @
     ''        "film_dimensions": [1920, 1080],\<newline>'' @
     ''        "origin": [0.0, 0.5, -3.0],\<newline>'' @
     ''        "look_at": [0.0, -0.5, -3.0],\<newline>'' @
     ''        "up": [0.0, 0.0, 1.0],\<newline>'' @
     ''        "field_of_view": 39.59775270904986\<newline>'' @
     ''    },\<newline>'' @
     ''    "settings": {\<newline>'' @
     ''        "environment": [\<newline>'' @
     ''            9.999999747378752e-06,\<newline>'' @
     ''            0.5,\<newline>'' @
     ''            0.5\<newline>'' @
     ''        ],\<newline>'' @
     ''        "samples_per_pixel": 128,\<newline>'' @
     ''        "max_ray_depth": 12\<newline>'' @
     ''    },\<newline>'' @
     ''    "objects": {}\<newline>'' @
     ''}''\<close>
  by code_simp

end
